theory Spec2Isabelle
  imports Main "HOL-Library.AList" "HOL-Library.Multiset"
begin

section \<open>Python strings\<close>

text \<open>
  A Python \<open>str\<close> is a sequence of Unicode code points, and every length, slice and
  comparison of \<open>main.py\<close> counts code points. A string is therefore a list of code
  points; ASCII literals are written through \<open>ascii\<close>, the others by their code points.
\<close>

type_synonym uchar = nat
type_synonym ustr = "uchar list"

definition ascii :: "string \<Rightarrow> ustr" where
  "ascii s = map of_char s"

text \<open>
  \<open>str.isspace\<close> of one character, which is also the class \<open>\s\<close> of \<open>re\<close> on a
  \<open>str\<close> pattern and the set \<open>str.strip()\<close> removes.
\<close>

definition isspace :: "uchar \<Rightarrow> bool" where
  "isspace c \<longleftrightarrow>
     (0x09 \<le> c \<and> c \<le> 0x0D) \<or> (0x1C \<le> c \<and> c \<le> 0x20) \<or> c = 0x85 \<or> c = 0xA0 \<or>
     c = 0x1680 \<or> (0x2000 \<le> c \<and> c \<le> 0x200A) \<or> c = 0x2028 \<or> c = 0x2029 \<or>
     c = 0x202F \<or> c = 0x205F \<or> c = 0x3000"

text \<open>\<open>s.strip()\<close>: leading and trailing whitespace removed.\<close>

definition str_strip :: "ustr \<Rightarrow> ustr" where
  "str_strip s = rev (dropWhile isspace (rev (dropWhile isspace s)))"

text \<open>
  \<open>re.split(r'[...]', s)\<close> for a class of single characters: the pieces between the
  delimiters, empty pieces included, so the result has one piece more than \<open>s\<close> has
  delimiters.
\<close>

fun re_split :: "(uchar \<Rightarrow> bool) \<Rightarrow> ustr \<Rightarrow> ustr list" where
  "re_split d [] = [[]]"
| "re_split d (c # cs) =
     (let ws = re_split d cs in if d c then [] # ws else (c # hd ws) # tl ws)"

text \<open>\<open>sep.join(xs)\<close>.\<close>

fun join :: "ustr \<Rightarrow> ustr list \<Rightarrow> ustr" where
  "join sep [] = []"
| "join sep [x] = x"
| "join sep (x # y # ys) = x @ sep @ join sep (y # ys)"

text \<open>\<open>xs[i:]\<close>: a negative \<open>i\<close> counts from the end, and the start is clamped to 0.\<close>

definition slice_from :: "int \<Rightarrow> 'a list \<Rightarrow> 'a list" where
  "slice_from i xs = (if i < 0 then drop (nat (int (length xs) + i)) xs else drop (nat i) xs)"

text \<open>\<open>a in b\<close> on strings: \<open>a\<close> occurs in \<open>b\<close> as a contiguous substring.\<close>

fun startswith :: "ustr \<Rightarrow> ustr \<Rightarrow> bool" where
  "startswith b [] = True"
| "startswith [] (x # xs) = False"
| "startswith (y # ys) (x # xs) = (x = y \<and> startswith ys xs)"

fun str_in :: "ustr \<Rightarrow> ustr \<Rightarrow> bool" where
  "str_in a [] = (a = [])"
| "str_in a (y # ys) = (startswith (y # ys) a \<or> str_in a ys)"

text \<open>
  \<open>str.isdigit\<close> accepts the characters whose Unicode property \<open>Numeric_Type\<close> is
  \<open>Decimal\<close> or \<open>Digit\<close>; \<open>int\<close> accepts only the decimal ones. The decimal digits come
  in blocks of ten, listed by their zero (Unicode 14, as CPython 3.11 has it); the
  other digits (superscripts, subscripts, circled digits, ...) are listed by range.
\<close>

definition decimal_zeros :: "uchar list" where
  "decimal_zeros =
    [0x30, 0x660, 0x6F0, 0x7C0, 0x966, 0x9E6, 0xA66, 0xAE6, 0xB66, 0xBE6, 0xC66, 0xCE6,
     0xD66, 0xDE6, 0xE50, 0xED0, 0xF20, 0x1040, 0x1090, 0x17E0, 0x1810, 0x1946, 0x19D0,
     0x1A80, 0x1A90, 0x1B50, 0x1BB0, 0x1C40, 0x1C50, 0xA620, 0xA8D0, 0xA900, 0xA9D0,
     0xA9F0, 0xAA50, 0xABF0, 0xFF10, 0x104A0, 0x10D30, 0x11066, 0x110F0, 0x11136,
     0x111D0, 0x112F0, 0x11450, 0x114D0, 0x11650, 0x116C0, 0x11730, 0x118E0, 0x11950,
     0x11C50, 0x11D50, 0x11DA0, 0x16A60, 0x16AC0, 0x16B50, 0x1D7CE, 0x1D7D8, 0x1D7E2,
     0x1D7EC, 0x1D7F6, 0x1E140, 0x1E2F0, 0x1E950, 0x1FBF0]"

definition other_digits :: "(uchar \<times> uchar) list" where
  "other_digits =
    [(0xB2, 0xB3), (0xB9, 0xB9), (0x1369, 0x1371), (0x19DA, 0x19DA), (0x2070, 0x2070),
     (0x2074, 0x2079), (0x2080, 0x2089), (0x2460, 0x2468), (0x2474, 0x247C),
     (0x2488, 0x2490), (0x24EA, 0x24EA), (0x24F5, 0x24FD), (0x24FF, 0x24FF),
     (0x2776, 0x277E), (0x2780, 0x2788), (0x278A, 0x2792), (0x10A40, 0x10A43),
     (0x10E60, 0x10E68), (0x11052, 0x1105A), (0x1F100, 0x1F10A)]"

definition decimal_value :: "uchar \<Rightarrow> nat option" where
  "decimal_value c =
     (case filter (\<lambda>z. z \<le> c \<and> c \<le> z + 9) decimal_zeros of
        [] \<Rightarrow> None
      | z # _ \<Rightarrow> Some (c - z))"

definition isdigit_char :: "uchar \<Rightarrow> bool" where
  "isdigit_char c \<longleftrightarrow>
     decimal_value c \<noteq> None \<or> list_ex (\<lambda>(lo, hi). lo \<le> c \<and> c \<le> hi) other_digits"

text \<open>\<open>s.isdigit()\<close>: at least one character, and every character a digit.\<close>

definition isdigit :: "ustr \<Rightarrow> bool" where
  "isdigit s \<longleftrightarrow> s \<noteq> [] \<and> list_all isdigit_char s"

datatype py_exception =
    ValueError | JSONDecodeError | TypeError | UnicodeDecodeError | UnicodeEncodeError | OSError

text \<open>
  \<open>int(s)\<close> on a string of digit characters, which is how \<open>main.py\<close> calls it (always
  behind \<open>s.isdigit()\<close>): the decimal value, or \<open>ValueError\<close> when a character has no
  decimal value or the string is longer than the interpreter's limit on integer strings
  (\<open>sys.int_max_str_digits\<close>, 4300 by default).
\<close>

definition int_max_str_digits :: nat where
  "int_max_str_digits = 4300"

fun decimal_digits :: "ustr \<Rightarrow> nat list option" where
  "decimal_digits [] = Some []"
| "decimal_digits (c # cs) =
     (case decimal_value c of
        None \<Rightarrow> None
      | Some d \<Rightarrow> (case decimal_digits cs of None \<Rightarrow> None | Some ds \<Rightarrow> Some (d # ds)))"

definition py_int :: "ustr \<Rightarrow> py_exception + int" where
  "py_int s =
     (if s = [] \<or> int_max_str_digits < length s then Inl ValueError
      else case decimal_digits s of
             None \<Rightarrow> Inl ValueError
           | Some ds \<Rightarrow> Inr (int (foldl (\<lambda>a d. 10 * a + d) 0 ds)))"

section \<open>The profile store of \<open>SoulMapManager\<close>\<close>

text \<open>
  A Python \<open>dict\<close> keeps its keys in insertion order, assignment to a present key keeps
  the key's place, and \<open>del\<close> removes the key: an association list with
  \<open>map_of\<close>, \<open>AList.update\<close> and \<open>AList.delete\<close>. A profile maps field names to string
  values, the store maps profile keys to profiles.
\<close>

type_synonym profile = "(ustr \<times> ustr) list"
type_synonym store = "(ustr \<times> profile) list"

text \<open>
  The two field names the code treats specially: the notes field (the two ideographs
  U+5907 U+6CE8) and the bookkeeping key \<open>_last_updated\<close>; and the separator the notes
  are joined with, the full-width semicolon U+FF1B.
\<close>

definition NOTES :: ustr where
  "NOTES = [0x5907, 0x6CE8]"

definition LAST_UPDATED :: ustr where
  "LAST_UPDATED = ascii ''_last_updated''"

definition NOTE_SEP :: ustr where
  "NOTE_SEP = [0xFF1B]"

text \<open>The character class \<open>[U+FF1B;]\<close> the notes are split on.\<close>

definition note_delim :: "uchar \<Rightarrow> bool" where
  "note_delim c \<longleftrightarrow> c = 0xFF1B \<or> c = 0x3B"

text \<open>
  \<open>[n.strip() for n in re.split(r'[U+FF1B;]', s) if n.strip()]\<close>, the comprehension
  every reader of the notes field uses.
\<close>

definition split_notes :: "ustr \<Rightarrow> ustr list" where
  "split_notes s = map str_strip (filter (\<lambda>n. str_strip n \<noteq> []) (re_split note_delim s))"

text \<open>
  The manager: its configuration, the store in memory (\<open>user_data\<close>) and the document
  held by \<open>user_profiles.json\<close> (\<open>None\<close> while the file holds no complete document: it
  does not exist, or a write was cut short).
\<close>

record manager =
  allowed_fields :: "ustr list"
  max_notes_count :: int
  user_data :: store
  saved :: "store option"

text \<open>
  \<open>_save_data\<close> opens the file for writing with \<open>encoding="utf-8"\<close>, which empties it, and
  \<open>json.dump(self.user_data, f, ensure_ascii=False, indent=2)\<close> writes every key and
  value as it is. A surrogate code point (U+D800 to U+DFFF, which a Python string can
  hold) has no UTF-8 encoding: the write of the piece that holds it raises
  \<open>UnicodeEncodeError\<close>, and the file is left with the pieces before it, the beginning of
  a document. The store in memory is not touched by the write. Failures of the file
  system itself (\<open>OSError\<close>) are not modelled: the file is taken to be writable.
\<close>

definition is_surrogate :: "uchar \<Rightarrow> bool" where
  "is_surrogate c \<longleftrightarrow> 0xD800 \<le> c \<and> c \<le> 0xDFFF"

definition encodable :: "ustr \<Rightarrow> bool" where
  "encodable s = list_all (\<lambda>c. \<not> is_surrogate c) s"

definition profile_encodable :: "profile \<Rightarrow> bool" where
  "profile_encodable p = list_all (\<lambda>fv. encodable (fst fv) \<and> encodable (snd fv)) p"

definition store_encodable :: "store \<Rightarrow> bool" where
  "store_encodable st = list_all (\<lambda>kp. encodable (fst kp) \<and> profile_encodable (snd kp)) st"

text \<open>The messages the operations return beside their success flag.\<close>

datatype message =
    FieldNotAllowedMsg ustr
  | UpdatedMsg ustr
  | NoProfileMsg
  | DeletedFieldMsg ustr
  | DeletedNoteMsg ustr ustr
  | NoSuchNoteMsg ustr
  | DeletedMatchingMsg ustr
  | NotFoundMsg ustr

text \<open>
  The result of \<open>_save_data\<close> is the exception it raised, if any, and the manager after
  the call.
\<close>

definition save_data :: "manager \<Rightarrow> py_exception option \<times> manager" where
  "save_data m =
     (if store_encodable (user_data m) then (None, m\<lparr>saved := Some (user_data m)\<rparr>)
      else (Some UnicodeEncodeError, m\<lparr>saved := None\<rparr>))"

text \<open>
  The two statements \<open>self._save_data()\<close>, \<open>return True, msg\<close> that end every successful
  branch of \<open>update_field\<close> and \<open>delete_field\<close>: an exception of the write leaves the
  function in place of the returned pair. \<open>Inl\<close> is an exception, \<open>Inr\<close> the returned pair.
\<close>

definition save_and_return ::
  "manager \<Rightarrow> bool \<times> message \<Rightarrow> (py_exception + bool \<times> message) \<times> manager" where
  "save_and_return m r =
     (case save_data m of
        (None, m') \<Rightarrow> (Inr r, m')
      | (Some e, m') \<Rightarrow> (Inl e, m'))"

text \<open>
  \<open>f"{session_id}_{user_id}" if session_id else user_id\<close>: \<open>None\<close> and the empty string are
  both false.
\<close>

definition get_user_key :: "ustr \<Rightarrow> ustr option \<Rightarrow> ustr" where
  "get_user_key user_id session_id =
     (case session_id of
        None \<Rightarrow> user_id
      | Some s \<Rightarrow> if s = [] then user_id else s @ ascii ''_'' @ user_id)"

definition get_user_profile :: "manager \<Rightarrow> ustr \<Rightarrow> ustr option \<Rightarrow> profile" where
  "get_user_profile m user_id session_id =
     (case map_of (user_data m) (get_user_key user_id session_id) of
        None \<Rightarrow> []
      | Some p \<Rightarrow> p)"

subsection \<open>\<open>update_field\<close>\<close>

text \<open>
  The loop \<open>for note in new_notes: if note not in notes: notes.append(note)\<close>.
\<close>

fun append_new :: "ustr list \<Rightarrow> ustr list \<Rightarrow> ustr list" where
  "append_new notes [] = notes"
| "append_new notes (note # new_notes) =
     append_new (if note \<notin> set notes then notes @ [note] else notes) new_notes"

text \<open>
  The notes branch of \<open>update_field\<close>. \<open>existing_notes\<close> is the list parsed from the
  stored value (the empty string when the field is absent), \<open>new_notes\<close> the list parsed
  from the stripped incoming value, every entry cut to 20 characters after its strip;
  \<open>merge_notes\<close> appends, keeps \<open>notes[-max_notes_count:]\<close> and joins.
\<close>

definition existing_notes :: "ustr \<Rightarrow> ustr list" where
  "existing_notes existing = (if existing \<noteq> [] then split_notes existing else [])"

definition new_notes :: "ustr \<Rightarrow> ustr list" where
  "new_notes v =
     map (\<lambda>n. take 20 (str_strip n)) (filter (\<lambda>n. str_strip n \<noteq> []) (re_split note_delim v))"

definition merge_notes :: "int \<Rightarrow> ustr \<Rightarrow> ustr \<Rightarrow> ustr" where
  "merge_notes max_count existing v =
     (let notes = existing_notes existing;
          notes = append_new notes (new_notes v);
          notes = slice_from (- max_count) notes
      in join NOTE_SEP notes)"

text \<open>
  \<open>update_field(user_id, field, value, session_id)\<close>; \<open>now\<close> is what
  \<open>datetime.now().strftime(...)\<close> returns during the call. The result is the returned
  pair, or the exception of the write, and the manager after the call.
\<close>

definition update_field ::
  "manager \<Rightarrow> ustr \<Rightarrow> ustr \<Rightarrow> ustr \<Rightarrow> ustr option \<Rightarrow> ustr
     \<Rightarrow> (py_exception + bool \<times> message) \<times> manager" where
  "update_field m user_id field val session_id now =
     (if field \<notin> set (allowed_fields m) then (Inr (False, FieldNotAllowedMsg field), m)
      else
        let key = get_user_key user_id session_id;
            ud = (if map_of (user_data m) key = None then AList.update key [] (user_data m)
                  else user_data m);
            prof = (case map_of ud key of None \<Rightarrow> [] | Some p \<Rightarrow> p);
            v = str_strip val;
            v = (if field = NOTES
                 then merge_notes (max_notes_count m)
                        (case map_of prof NOTES of None \<Rightarrow> [] | Some e \<Rightarrow> e) v
                 else v);
            prof = AList.update field v prof;
            prof = AList.update LAST_UPDATED now prof
        in save_and_return (m\<lparr>user_data := AList.update key prof ud\<rparr>) (True, UpdatedMsg field))"

subsection \<open>\<open>delete_field\<close>\<close>

text \<open>\<open>notes.pop(idx)\<close> for an index in range: the list without its element \<open>idx\<close>.\<close>

definition pop_at :: "nat \<Rightarrow> 'a list \<Rightarrow> 'a list" where
  "pop_at i xs = take i xs @ drop (Suc i) xs"

text \<open>
  The end of each successful branch of \<open>delete_field\<close>: the notes field rewritten from
  the remaining entries, or deleted when none remains.
\<close>

definition store_notes :: "ustr list \<Rightarrow> profile \<Rightarrow> profile" where
  "store_notes notes prof =
     (if notes \<noteq> [] then AList.update NOTES (join NOTE_SEP notes) prof
      else AList.delete NOTES prof)"

text \<open>
  \<open>profile["_last_updated"] = now\<close> on the profile object the store holds under \<open>key\<close>,
  after the changes that made it \<open>prof\<close>; and the manager a successful branch leaves,
  the profile stamped and the write attempted.
\<close>

definition stamp_profile :: "manager \<Rightarrow> ustr \<Rightarrow> profile \<Rightarrow> ustr \<Rightarrow> manager" where
  "stamp_profile m key prof now =
     m\<lparr>user_data := AList.update key (AList.update LAST_UPDATED now prof) (user_data m)\<rparr>"

definition commit :: "manager \<Rightarrow> ustr \<Rightarrow> profile \<Rightarrow> ustr \<Rightarrow> manager" where
  "commit m key prof now = snd (save_data (stamp_profile m key prof now))"

text \<open>
  \<open>delete_field(user_id, field, session_id)\<close>: an exact field name first, then a
  numeric index into the notes, then a substring of note entries. \<open>Inl\<close> is an exception
  that leaves the function (\<open>int(field)\<close> and the write can raise), \<open>Inr\<close> the returned
  pair.
\<close>

definition delete_field ::
  "manager \<Rightarrow> ustr \<Rightarrow> ustr \<Rightarrow> ustr option \<Rightarrow> ustr
     \<Rightarrow> (py_exception + bool \<times> message) \<times> manager" where
  "delete_field m user_id field session_id now =
     (let key = get_user_key user_id session_id in
      case map_of (user_data m) key of
        None \<Rightarrow> (Inr (False, NoProfileMsg), m)
      | Some prof \<Rightarrow>
          if map_of prof field \<noteq> None then
            save_and_return (stamp_profile m key (AList.delete field prof) now)
              (True, DeletedFieldMsg field)
          else
            (case map_of prof NOTES of
               None \<Rightarrow> (Inr (False, NotFoundMsg field), m)
             | Some stored \<Rightarrow>
                 if isdigit field then
                   (case py_int field of
                      Inl e \<Rightarrow> (Inl e, m)
                    | Inr n \<Rightarrow>
                        let idx = n - 1; notes = split_notes stored in
                        if 0 \<le> idx \<and> idx < int (length notes) then
                          save_and_return
                            (stamp_profile m key (store_notes (pop_at (nat idx) notes) prof) now)
                            (True, DeletedNoteMsg field (notes ! nat idx))
                        else (Inr (False, NoSuchNoteMsg field), m))
                 else
                   (let notes = split_notes stored;
                        new_notes = filter (\<lambda>n. \<not> str_in field n) notes in
                    if length new_notes < length notes then
                      save_and_return (stamp_profile m key (store_notes new_notes prof) now)
                        (True, DeletedMatchingMsg field)
                    else (Inr (False, NotFoundMsg field), m))))"

subsection \<open>\<open>_load_data\<close>\<close>

text \<open>
  What \<open>json.load\<close> can return. The file system and the parser are outside the
  program: \<open>_load_data\<close> is modelled over whether the path exists and over what
  \<open>open(path)\<close> followed by \<open>json.load(f)\<close> does, which is to return the parsed document
  or to raise.
\<close>

datatype json =
    JNull
  | JBool bool
  | JNumber int
  | JString ustr
  | JArray "json list"
  | JObject "(ustr \<times> json) list"

datatype read_result = Parsed json | Raised py_exception

text \<open>
  \<open>if not path.exists(): return {}\<close>, then \<open>try: return json.load(f)\<close> with
  \<open>except (json.JSONDecodeError, TypeError): return {}\<close>. Any other exception leaves
  the function.
\<close>

definition load_data :: "bool \<Rightarrow> read_result \<Rightarrow> py_exception + json" where
  "load_data path_exists rd =
     (if \<not> path_exists then Inr (JObject [])
      else case rd of
             Parsed doc \<Rightarrow> Inr doc
           | Raised e \<Rightarrow> if e = JSONDecodeError \<or> e = TypeError then Inr (JObject []) else Inl e)"

subsection \<open>\<open>format_profile_summary\<close>\<close>

text \<open>\<open>str(i)\<close> for a natural number: its decimal digits.\<close>

fun str_of_nat :: "nat \<Rightarrow> ustr" where
  "str_of_nat n = (if n < 10 then [0x30 + n] else str_of_nat (n div 10) @ [0x30 + n mod 10])"

text \<open>
  The sentinel the summary returns when there is nothing to show (four ideographs), and
  the full-width colon U+FF1A of every line.
\<close>

definition NO_RECORD :: ustr where
  "NO_RECORD = [0x6682, 0x65E0, 0x8BB0, 0x5F55]"

definition FW_COLON :: ustr where
  "FW_COLON = [0xFF1A]"

text \<open>\<open>" ".join([f"{i}.{note}" for i, note in enumerate(notes, 1)])\<close>.\<close>

definition notes_display :: "ustr \<Rightarrow> ustr" where
  "notes_display v =
     join (ascii '' '')
       (map (\<lambda>(i, note). str_of_nat i @ ascii ''.'' @ note) (List.enumerate 1 (split_notes v)))"

text \<open>The loop over \<open>self.allowed_fields\<close>, with the list \<open>lines\<close> it appends to.\<close>

fun format_lines :: "ustr list \<Rightarrow> profile \<Rightarrow> ustr list \<Rightarrow> ustr list" where
  "format_lines [] profile lines = lines"
| "format_lines (field # rest) profile lines =
     format_lines rest profile
       (case map_of profile field of
          None \<Rightarrow> lines
        | Some v \<Rightarrow>
            if v = [] then lines
            else if field = NOTES then lines @ [ascii ''- '' @ NOTES @ FW_COLON @ notes_display v]
            else lines @ [ascii ''- '' @ field @ FW_COLON @ v])"

definition format_profile_summary :: "manager \<Rightarrow> ustr \<Rightarrow> ustr option \<Rightarrow> ustr" where
  "format_profile_summary m user_id session_id =
     (let profile = get_user_profile m user_id session_id in
      if profile = [] then NO_RECORD
      else
        let lines = format_lines (allowed_fields m) profile [] in
        if lines \<noteq> [] then join [0x0A] lines else NO_RECORD)"

text \<open>
  The summary as the specification words it: the fields of the allow-list, in its order,
  that the profile holds with a non-empty value; one line for each; the notes as numbered
  entries; the sentinel when no field is shown.
\<close>

definition spec_shown :: "profile \<Rightarrow> ustr \<Rightarrow> bool" where
  "spec_shown p f \<longleftrightarrow> (case map_of p f of None \<Rightarrow> False | Some v \<Rightarrow> v \<noteq> [])"

definition spec_numbered :: "ustr list \<Rightarrow> ustr" where
  "spec_numbered notes =
     join (ascii '' '')
       (map (\<lambda>i. str_of_nat (Suc i) @ ascii ''.'' @ notes ! i) [0..<length notes])"

definition spec_line :: "profile \<Rightarrow> ustr \<Rightarrow> ustr" where
  "spec_line p f =
     ascii ''- '' @ f @ FW_COLON @
       (case map_of p f of
          None \<Rightarrow> []
        | Some v \<Rightarrow> if f = NOTES then spec_numbered (split_notes v) else v)"

definition spec_format :: "ustr list \<Rightarrow> profile \<Rightarrow> ustr" where
  "spec_format allowed p =
     (let shown = filter (spec_shown p) allowed in
      if shown = [] then NO_RECORD else join [0x0A] (map (spec_line p) shown))"

subsection \<open>Note entries and repeated deletion\<close>

text \<open>
  A well-formed note entry: not empty, without surrounding whitespace, and without a
  delimiter.
\<close>

definition note_ok :: "ustr \<Rightarrow> bool" where
  "note_ok e \<longleftrightarrow> e \<noteq> [] \<and> str_strip e = e \<and> list_all (\<lambda>c. \<not> note_delim c) e"

text \<open>
  Successive calls of \<open>delete_field\<close> for one user, one target per call, each with
  the time of its call; what each call returns is reported to the user and not used.
\<close>

fun delete_each :: "manager \<Rightarrow> ustr \<Rightarrow> (ustr \<times> ustr) list \<Rightarrow> ustr option \<Rightarrow> manager" where
  "delete_each m user_id [] session_id = m"
| "delete_each m user_id ((field, now) # calls) session_id =
     delete_each (snd (delete_field m user_id field session_id now)) user_id calls session_id"

text \<open>
  The targets of successive calls are valid indices when each is a digit string that
  \<open>int\<close> reads as a position of the notes list at the time of its call, which is one
  entry shorter after every call.
\<close>

fun valid_indices :: "ustr list \<Rightarrow> nat \<Rightarrow> bool" where
  "valid_indices [] k = True"
| "valid_indices (t # ts) k =
     (isdigit t \<and> (case py_int t of Inl e \<Rightarrow> False | Inr n \<Rightarrow> 1 \<le> n \<and> n \<le> int k) \<and>
      valid_indices ts (k - 1))"

text \<open>The notes list of a user's profile, as every reader of the notes field parses it.\<close>

definition stored_notes :: "manager \<Rightarrow> ustr \<Rightarrow> ustr option \<Rightarrow> ustr list" where
  "stored_notes m user_id session_id =
     (case map_of (get_user_profile m user_id session_id) NOTES of
        None \<Rightarrow> []
      | Some stored \<Rightarrow> split_notes stored)"

subsection \<open>Delete blocks in \<open>on_llm_resp\<close>\<close>

text \<open>
  The part of \<open>on_llm_resp\<close> that handles one \<open>[ProfileDelete: ...]\<close> block; \<open>body\<close> is
  the text the pattern captured between the colon and the bracket. The targets are split
  on the class \<open>[,U+FF0C;U+FF1BU+3001]\<close>, stripped, and the empty ones dropped.
\<close>

definition target_delim :: "uchar \<Rightarrow> bool" where
  "target_delim c \<longleftrightarrow> c = 0x2C \<or> c = 0xFF0C \<or> c = 0x3B \<or> c = 0xFF1B \<or> c = 0x3001"

definition split_targets :: "ustr \<Rightarrow> ustr list" where
  "split_targets body =
     map str_strip (filter (\<lambda>f. str_strip f \<noteq> []) (re_split target_delim body))"

text \<open>
  \<open>sorted(digit_fields, key=int, reverse=True)\<close>: the keys are computed first, and an
  exception of \<open>int\<close> leaves the sort; the sort is stable, so targets with equal values
  keep their order.
\<close>

fun int_keys :: "ustr list \<Rightarrow> py_exception + (int \<times> ustr) list" where
  "int_keys [] = Inr []"
| "int_keys (f # fs) =
     (case py_int f of
        Inl e \<Rightarrow> Inl e
      | Inr k \<Rightarrow> (case int_keys fs of Inl e \<Rightarrow> Inl e | Inr ks \<Rightarrow> Inr ((k, f) # ks)))"

definition sorted_by_int_desc :: "ustr list \<Rightarrow> py_exception + ustr list" where
  "sorted_by_int_desc fs =
     (case int_keys fs of
        Inl e \<Rightarrow> Inl e
      | Inr ks \<Rightarrow> Inr (map snd (sort_key (\<lambda>kf. - fst kf) ks)))"

text \<open>
  The order of the loop, \<open>other_fields + digit_fields\<close>: the targets that are not
  digit strings first, in the order of the block, then the digit strings from the
  largest value to the smallest.
\<close>

definition delete_order :: "ustr list \<Rightarrow> py_exception + ustr list" where
  "delete_order targets =
     (case sorted_by_int_desc (filter isdigit targets) of
        Inl e \<Rightarrow> Inl e
      | Inr digit_fields \<Rightarrow>
          let other_fields = filter (\<lambda>f. \<not> isdigit f) targets
          in Inr (other_fields @ digit_fields))"

text \<open>
  The loop \<open>for field in other_fields + digit_fields: delete_field(...)\<close>; \<open>clock i\<close> is
  the time of the call number \<open>i\<close>. What the calls return is logged: the list of the
  returned pairs stands for the log. An exception leaves the loop.
\<close>

fun delete_loop ::
  "manager \<Rightarrow> ustr \<Rightarrow> ustr list \<Rightarrow> ustr option \<Rightarrow> (nat \<Rightarrow> ustr)
     \<Rightarrow> (py_exception + (bool \<times> message) list) \<times> manager" where
  "delete_loop m user_id [] session_id clock = (Inr [], m)"
| "delete_loop m user_id (field # rest) session_id clock =
     (case delete_field m user_id field session_id (clock 0) of
        (Inl e, m') \<Rightarrow> (Inl e, m')
      | (Inr r, m') \<Rightarrow>
          (case delete_loop m' user_id rest session_id (\<lambda>i. clock (Suc i)) of
             (Inl e, m'') \<Rightarrow> (Inl e, m'')
           | (Inr rs, m'') \<Rightarrow> (Inr (r # rs), m'')))"

definition process_delete_block ::
  "manager \<Rightarrow> ustr \<Rightarrow> ustr \<Rightarrow> ustr option \<Rightarrow> (nat \<Rightarrow> ustr)
     \<Rightarrow> (py_exception + (bool \<times> message) list) \<times> manager" where
  "process_delete_block m user_id body session_id clock =
     (case delete_order (split_targets body) of
        Inl e \<Rightarrow> (Inl e, m)
      | Inr order \<Rightarrow> delete_loop m user_id order session_id clock)"

section \<open>The sanitizer\<close>

text \<open>
  One literal character of a pattern compiled with \<open>re.IGNORECASE\<close>: the character
  itself, its other case, and for the letter i also U+0130 and U+0131, which the
  \<open>re\<close> module folds to it.
\<close>

definition ci_match :: "uchar \<Rightarrow> uchar \<Rightarrow> bool" where
  "ci_match p c \<longleftrightarrow>
     c = p \<or> (0x41 \<le> p \<and> p \<le> 0x5A \<and> c = p + 32) \<or> (0x61 \<le> p \<and> p \<le> 0x7A \<and> c + 32 = p) \<or>
     ((p = 0x69 \<or> p = 0x49) \<and> (c = 0x130 \<or> c = 0x131))"

text \<open>A literal matched at the start of a text: the rest of the text, or no match.\<close>

fun match_literal :: "ustr \<Rightarrow> ustr \<Rightarrow> ustr option" where
  "match_literal [] s = Some s"
| "match_literal (p # ps) [] = None"
| "match_literal (p # ps) (c # cs) = (if ci_match p c then match_literal ps cs else None)"

text \<open>
  \<open>block_pattern\<close>, the regular expression
  \<^verbatim>\<open>\s*\[(?:Profile|ProfileDelete):[^\]]*\]\s*\<close> with \<open>re.IGNORECASE\<close>, matched at the start of
  a text: the text after the match, or no match. Each greedy part is followed by a
  character outside its class, so backtracking finds nothing the first try misses.
\<close>

definition block_match :: "ustr \<Rightarrow> ustr option" where
  "block_match s =
     (case dropWhile isspace s of
        [] \<Rightarrow> None
      | c # s1 \<Rightarrow>
          if c \<noteq> 0x5B then None
          else
            (case (case match_literal (ascii ''Profile:'') s1 of
                     Some r \<Rightarrow> Some r
                   | None \<Rightarrow> match_literal (ascii ''ProfileDelete:'') s1) of
               None \<Rightarrow> None
             | Some s2 \<Rightarrow>
                 (case dropWhile (\<lambda>c. c \<noteq> 0x5D) s2 of
                    [] \<Rightarrow> None
                  | c # s3 \<Rightarrow> Some (dropWhile isspace s3))))"

text \<open>A match consumes at least one character, which is what lets the scan terminate.\<close>

lemma match_literal_length: "match_literal p s = Some r \<Longrightarrow> length r \<le> length s"
  by (induction p s rule: match_literal.induct) (auto split: if_splits)

lemma block_match_shorter:
  assumes "block_match s = Some r"
  shows "length r < length s"
proof -
  from assms obtain c s1 s2 d s3 where
    a: "dropWhile isspace s = c # s1"
    and b: "match_literal (ascii ''Profile:'') s1 = Some s2
            \<or> match_literal (ascii ''ProfileDelete:'') s1 = Some s2"
    and c: "dropWhile (\<lambda>c. c \<noteq> 0x5D) s2 = d # s3"
    and r: "r = dropWhile isspace s3"
    by (auto simp: block_match_def split: list.splits if_splits option.splits)
  have "length r \<le> length s3"
    unfolding r by (rule length_dropWhile_le)
  also have "length s3 < length (d # s3)" by simp
  also have "length (d # s3) \<le> length s2"
    unfolding c [symmetric] by (rule length_dropWhile_le)
  also have "length s2 \<le> length s1"
    using b match_literal_length by blast
  also have "length s1 < length (c # s1)" by simp
  also have "length (c # s1) \<le> length s"
    unfolding a [symmetric] by (rule length_dropWhile_le)
  finally show ?thesis .
qed

text \<open>
  \<open>block_pattern.sub('', s)\<close>: the scan from the left, which at each position removes
  the match that starts there and resumes behind it, or keeps the character.
\<close>

function block_pattern_sub :: "ustr \<Rightarrow> ustr" where
  "block_pattern_sub [] = []"
| "block_pattern_sub (c # cs) =
     (case block_match (c # cs) of
        Some rest \<Rightarrow> block_pattern_sub rest
      | None \<Rightarrow> c # block_pattern_sub cs)"
  by pat_completeness auto
termination
  by (relation "measure length") (auto dest: block_match_shorter)

text \<open>
  \<open>block_pattern.sub('', text).strip()\<close>, the cleaning \<open>on_llm_resp\<close>,
  \<open>on_decorating_result\<close> and the patched \<open>send_message\<close> apply to a text.
\<close>

definition clean_text :: "ustr \<Rightarrow> ustr" where
  "clean_text t = str_strip (block_pattern_sub t)"

text \<open>A text has a block when \<open>block_pattern\<close> matches at some position of it.\<close>

fun has_block :: "ustr \<Rightarrow> bool" where
  "has_block [] = False"
| "has_block (c # cs) = (block_match (c # cs) \<noteq> None \<or> has_block cs)"

section \<open>Properties of \<open>update_field\<close>\<close>

text \<open>
  C6. For a field name that is not in the configured allow-list, and any value,
  \<open>update_field\<close> returns the failure "field not allowed" and the manager is the one it
  was called on: no profile is created or changed, \<open>_last_updated\<close> is not stamped and
  the saved file is not rewritten.
\<close>

theorem update_field_not_allowed:
  "field \<notin> set (allowed_fields m) \<Longrightarrow>
     update_field m user_id field val session_id now = (Inr (False, FieldNotAllowedMsg field), m)"
  by (simp add: update_field_def)

theorem update_field_not_allowed_witness:
  "ascii ''age'' \<notin> set [ascii ''name'', NOTES] \<and>
   update_field \<lparr>allowed_fields = [ascii ''name'', NOTES], max_notes_count = 5,
                  user_data = [(ascii ''u1'', [(ascii ''name'', ascii ''Ann'')])], saved = None\<rparr>
     (ascii ''u1'') (ascii ''age'') (ascii ''7'') None (ascii ''2024-01-01 00:00:00'')
   = (Inr (False, FieldNotAllowedMsg (ascii ''age'')),
      \<lparr>allowed_fields = [ascii ''name'', NOTES], max_notes_count = 5,
       user_data = [(ascii ''u1'', [(ascii ''name'', ascii ''Ann'')])], saved = None\<rparr>)"
proof -
  have h: "ascii ''age'' \<notin> set [ascii ''name'', NOTES]"
    by (simp add: ascii_def NOTES_def)
  show ?thesis
    using h update_field_not_allowed [of "ascii ''age''"
      "\<lparr>allowed_fields = [ascii ''name'', NOTES], max_notes_count = 5,
        user_data = [(ascii ''u1'', [(ascii ''name'', ascii ''Ann'')])], saved = None\<rparr>"]
    by simp
qed

text \<open>
  What the write does to a manager, and what a call that reaches the write returns.
\<close>

lemma save_data_cases:
  "save_data m =
     (if store_encodable (user_data m) then (None, m\<lparr>saved := Some (user_data m)\<rparr>)
      else (Some UnicodeEncodeError, m\<lparr>saved := None\<rparr>))"
  by (simp add: save_data_def)

lemma user_data_save_data: "user_data (snd (save_data m)) = user_data m"
  by (simp add: save_data_def)

lemma save_and_return_cases:
  "save_and_return m r =
     (if store_encodable (user_data m) then (Inr r, m\<lparr>saved := Some (user_data m)\<rparr>)
      else (Inl UnicodeEncodeError, m\<lparr>saved := None\<rparr>))"
  by (simp add: save_and_return_def save_data_def)

lemma snd_save_and_return: "snd (save_and_return m r) = snd (save_data m)"
  by (simp add: save_and_return_def save_data_def)

text \<open>
  C10, where it fails. Were \<open>_last_updated\<close> itself in the allow-list, a value that strips
  to the empty string would not leave the empty string under it: the call returns
  success, and the stamp written after the value overwrites it.
\<close>

theorem update_field_empty_value_counterexample:
  "LAST_UPDATED \<in> set [ascii ''name'', LAST_UPDATED] \<and> LAST_UPDATED \<noteq> NOTES \<and>
   str_strip (ascii ''  '') = [] \<and>
   update_field
     \<lparr>allowed_fields = [ascii ''name'', LAST_UPDATED], max_notes_count = 5,
      user_data = [(ascii ''u1'', [(ascii ''name'', ascii ''Ann'')])], saved = None\<rparr>
     (ascii ''u1'') LAST_UPDATED (ascii ''  '') None (ascii ''2024'')
   = (Inr (True, UpdatedMsg LAST_UPDATED),
      \<lparr>allowed_fields = [ascii ''name'', LAST_UPDATED], max_notes_count = 5,
       user_data = [(ascii ''u1'', [(ascii ''name'', ascii ''Ann''),
                                    (LAST_UPDATED, ascii ''2024'')])],
       saved = Some [(ascii ''u1'', [(ascii ''name'', ascii ''Ann''),
                                     (LAST_UPDATED, ascii ''2024'')])]\<rparr>) \<and>
   ascii ''2024'' \<noteq> []"
proof -
  have ne: "ascii ''name'' \<noteq> LAST_UPDATED" "LAST_UPDATED \<noteq> NOTES"
    by (simp_all add: ascii_def LAST_UPDATED_def NOTES_def)
  have st: "str_strip (ascii ''  '') = []"
    by (simp add: ascii_def str_strip_def isspace_def)
  have enc: "store_encodable [(ascii ''u1'', [(ascii ''name'', ascii ''Ann''),
                                              (LAST_UPDATED, ascii ''2024'')])]"
    by (simp add: store_encodable_def profile_encodable_def encodable_def is_surrogate_def
          ascii_def LAST_UPDATED_def)
  have "update_field
     \<lparr>allowed_fields = [ascii ''name'', LAST_UPDATED], max_notes_count = 5,
      user_data = [(ascii ''u1'', [(ascii ''name'', ascii ''Ann'')])], saved = None\<rparr>
     (ascii ''u1'') LAST_UPDATED (ascii ''  '') None (ascii ''2024'')
   = (Inr (True, UpdatedMsg LAST_UPDATED),
      \<lparr>allowed_fields = [ascii ''name'', LAST_UPDATED], max_notes_count = 5,
       user_data = [(ascii ''u1'', [(ascii ''name'', ascii ''Ann''),
                                    (LAST_UPDATED, ascii ''2024'')])],
       saved = Some [(ascii ''u1'', [(ascii ''name'', ascii ''Ann''),
                                     (LAST_UPDATED, ascii ''2024'')])]\<rparr>)"
    using ne by (simp add: update_field_def get_user_key_def st Let_def save_and_return_cases enc)
  moreover have "ascii ''2024'' \<noteq> []"
    by (simp add: ascii_def)
  ultimately show ?thesis
    using ne st by simp
qed

text \<open>
  C10, as it holds. When \<open>update_field\<close> is called with an allowed field other than the
  notes field and other than \<open>_last_updated\<close>, and a value that strips to the empty
  string, the write is not skipped. In memory, the store after the call is the store
  before it with one change: in the caller's profile (created empty when there was
  none) the field holds the empty string, whatever it held before, and \<open>_last_updated\<close>
  holds the time of the call; every other field of that profile, every other profile
  and the configuration are as they were. Then the whole store is written: when no key
  or value of the store holds a surrogate code point the call returns success and the
  file holds the store; otherwise the write raises \<open>UnicodeEncodeError\<close>, with the store
  in memory already changed and the file left without a document.
\<close>

theorem update_field_empty_value:
  assumes "field \<in> set (allowed_fields m)" and "field \<noteq> NOTES" and "field \<noteq> LAST_UPDATED"
    and "str_strip val = []"
  shows "\<exists>r m'. update_field m user_id field val session_id now = (r, m')
           \<and> user_data m' =
               AList.update (get_user_key user_id session_id)
                 (AList.update LAST_UPDATED now
                    (AList.update field [] (get_user_profile m user_id session_id)))
                 (user_data m)
           \<and> map_of (get_user_profile m' user_id session_id) field = Some []
           \<and> map_of (get_user_profile m' user_id session_id) LAST_UPDATED = Some now
           \<and> (\<forall>f. f \<noteq> field \<and> f \<noteq> LAST_UPDATED \<longrightarrow>
                 map_of (get_user_profile m' user_id session_id) f
                   = map_of (get_user_profile m user_id session_id) f)
           \<and> (\<forall>k. k \<noteq> get_user_key user_id session_id \<longrightarrow>
                 map_of (user_data m') k = map_of (user_data m) k)
           \<and> allowed_fields m' = allowed_fields m \<and> max_notes_count m' = max_notes_count m
           \<and> (store_encodable (user_data m') \<longrightarrow>
                 r = Inr (True, UpdatedMsg field) \<and> saved m' = Some (user_data m'))
           \<and> (\<not> store_encodable (user_data m') \<longrightarrow>
                 r = Inl UnicodeEncodeError \<and> saved m' = None)"
proof -
  let ?key = "get_user_key user_id session_id"
  let ?p = "get_user_profile m user_id session_id"
  let ?p' = "AList.update LAST_UPDATED now (AList.update field [] ?p)"
  let ?m1 = "m\<lparr>user_data := AList.update ?key ?p' (user_data m)\<rparr>"
  have u: "update_field m user_id field val session_id now
             = save_and_return ?m1 (True, UpdatedMsg field)"
    using assms
    by (simp add: update_field_def get_user_profile_def Let_def update_conv'
          split: option.splits)
  obtain r m' where rm: "save_and_return ?m1 (True, UpdatedMsg field) = (r, m')"
    by (cases "save_and_return ?m1 (True, UpdatedMsg field)")
  have ud: "user_data m' = AList.update ?key ?p' (user_data m)"
    using rm by (simp add: save_and_return_cases split: if_splits) auto
  have prof: "get_user_profile m' user_id session_id = ?p'"
    by (simp add: get_user_profile_def ud update_conv')
  have cfg: "allowed_fields m' = allowed_fields m \<and> max_notes_count m' = max_notes_count m"
    using rm by (simp add: save_and_return_cases split: if_splits) auto
  have ok: "store_encodable (user_data m') \<longrightarrow>
              r = Inr (True, UpdatedMsg field) \<and> saved m' = Some (user_data m')"
    using rm by (auto simp: save_and_return_cases split: if_splits)
  have bad: "\<not> store_encodable (user_data m') \<longrightarrow> r = Inl UnicodeEncodeError \<and> saved m' = None"
    using rm by (auto simp: save_and_return_cases split: if_splits)
  have f1: "map_of (get_user_profile m' user_id session_id) field = Some []"
    using assms(3) by (simp add: prof update_conv')
  have f2: "map_of (get_user_profile m' user_id session_id) LAST_UPDATED = Some now"
    by (simp add: prof update_conv')
  have f3: "\<forall>f. f \<noteq> field \<and> f \<noteq> LAST_UPDATED \<longrightarrow>
              map_of (get_user_profile m' user_id session_id) f = map_of ?p f"
    by (simp add: prof update_conv')
  have f4: "\<forall>k. k \<noteq> ?key \<longrightarrow> map_of (user_data m') k = map_of (user_data m) k"
    by (simp add: ud update_conv')
  show ?thesis
    unfolding u rm using ud f1 f2 f3 f4 cfg ok bad by blast
qed

theorem update_field_empty_value_witness:
  "ascii ''name'' \<in> set [ascii ''name'', NOTES] \<and> ascii ''name'' \<noteq> NOTES \<and>
   ascii ''name'' \<noteq> LAST_UPDATED \<and> str_strip (ascii ''  '') = [] \<and>
   store_encodable [(ascii ''u1'', [(ascii ''name'', []), (LAST_UPDATED, ascii ''2024'')]),
                    (ascii ''u2'', [(ascii ''name'', ascii ''Bob'')])] \<and>
   update_field
     \<lparr>allowed_fields = [ascii ''name'', NOTES], max_notes_count = 5,
      user_data = [(ascii ''u1'', [(ascii ''name'', ascii ''Ann'')]),
                   (ascii ''u2'', [(ascii ''name'', ascii ''Bob'')])], saved = None\<rparr>
     (ascii ''u1'') (ascii ''name'') (ascii ''  '') None (ascii ''2024'')
   = (Inr (True, UpdatedMsg (ascii ''name'')),
      \<lparr>allowed_fields = [ascii ''name'', NOTES], max_notes_count = 5,
       user_data = [(ascii ''u1'', [(ascii ''name'', []), (LAST_UPDATED, ascii ''2024'')]),
                    (ascii ''u2'', [(ascii ''name'', ascii ''Bob'')])],
       saved = Some [(ascii ''u1'', [(ascii ''name'', []), (LAST_UPDATED, ascii ''2024'')]),
                     (ascii ''u2'', [(ascii ''name'', ascii ''Bob'')])]\<rparr>)"
proof -
  let ?m = "\<lparr>allowed_fields = [ascii ''name'', NOTES], max_notes_count = 5,
      user_data = [(ascii ''u1'', [(ascii ''name'', ascii ''Ann'')]),
                   (ascii ''u2'', [(ascii ''name'', ascii ''Bob'')])], saved = None\<rparr>"
  let ?st = "[(ascii ''u1'', [(ascii ''name'', []), (LAST_UPDATED, ascii ''2024'')]),
              (ascii ''u2'', [(ascii ''name'', ascii ''Bob'')])]"
  have h1: "ascii ''name'' \<in> set (allowed_fields ?m)"
    by simp
  have h2: "ascii ''name'' \<noteq> NOTES"
    by (simp add: ascii_def NOTES_def)
  have h3: "ascii ''name'' \<noteq> LAST_UPDATED"
    by (simp add: ascii_def LAST_UPDATED_def)
  have h4: "str_strip (ascii ''  '') = []"
    by (simp add: ascii_def str_strip_def isspace_def)
  have enc: "store_encodable ?st"
    by (simp add: store_encodable_def profile_encodable_def encodable_def is_surrogate_def
          ascii_def LAST_UPDATED_def)
  have st: "AList.update (get_user_key (ascii ''u1'') None)
        (AList.update LAST_UPDATED (ascii ''2024'')
           (AList.update (ascii ''name'') [] (get_user_profile ?m (ascii ''u1'') None)))
        (user_data ?m) = ?st"
    using h3 by (simp add: get_user_key_def get_user_profile_def)
  from update_field_empty_value [OF h1 h2 h3 h4, of "ascii ''u1''" None "ascii ''2024''"]
  obtain r m' where
    u: "update_field ?m (ascii ''u1'') (ascii ''name'') (ascii ''  '') None (ascii ''2024'')
          = (r, m')"
    and ud: "user_data m' = ?st"
    and cfg: "allowed_fields m' = allowed_fields ?m" "max_notes_count m' = max_notes_count ?m"
    and ok: "store_encodable (user_data m') \<longrightarrow>
          r = Inr (True, UpdatedMsg (ascii ''name'')) \<and> saved m' = Some (user_data m')"
    unfolding st by blast
  have r: "r = Inr (True, UpdatedMsg (ascii ''name''))" and sv: "saved m' = Some ?st"
    using ok enc by (simp_all add: ud)
  have "m' = \<lparr>allowed_fields = [ascii ''name'', NOTES], max_notes_count = 5,
       user_data = ?st, saved = Some ?st\<rparr>"
    using ud cfg sv by (cases m') simp
  then show ?thesis
    using h2 h3 h4 enc u r by simp
qed

section \<open>Properties of \<open>_load_data\<close>\<close>

text \<open>
  C4, as it is stated, fails: a document that parses to JSON of the wrong shape, here an
  array, is returned as it is and not replaced by the empty store.
\<close>

theorem load_data_wrong_shape_counterexample:
  "load_data True (Parsed (JArray [JNumber 1])) = Inr (JArray [JNumber 1]) \<and>
   load_data True (Parsed (JArray [JNumber 1])) \<noteq> Inr (JObject [])"
  by (simp add: load_data_def)

text \<open>
  C4, amended. \<open>_load_data\<close> returns the empty store when the file is missing and when
  reading it raises \<open>JSONDecodeError\<close> (the document does not parse) or \<open>TypeError\<close>; a
  document that parses is returned as parsed, whatever its shape. In none of these
  cases does it raise.
\<close>

theorem load_data_cases:
  "(\<not> path_exists \<longrightarrow> load_data path_exists rd = Inr (JObject [])) \<and>
   (rd = Raised JSONDecodeError \<or> rd = Raised TypeError
      \<longrightarrow> load_data path_exists rd = Inr (JObject [])) \<and>
   (path_exists \<and> rd = Parsed doc \<longrightarrow> load_data path_exists rd = Inr doc)"
  by (auto simp: load_data_def)

theorem load_data_cases_witness:
  "load_data False (Parsed (JArray [])) = Inr (JObject []) \<and>
   load_data True (Raised JSONDecodeError) = Inr (JObject []) \<and>
   load_data True (Parsed (JObject [(ascii ''u1'', JObject [])]))
     = Inr (JObject [(ascii ''u1'', JObject [])])"
  using load_data_cases [of False "Parsed (JArray [])"]
    load_data_cases [of True "Raised JSONDecodeError"]
    load_data_cases [of True "Parsed (JObject [(ascii ''u1'', JObject [])])"
      "JObject [(ascii ''u1'', JObject [])]"]
  by simp

section \<open>Properties of \<open>format_profile_summary\<close>\<close>

lemma enumerate_map_nth:
  "map f (List.enumerate n xs) = map (\<lambda>i. f (n + i, xs ! i)) [0..<length xs]"
proof (induction xs arbitrary: n)
  case Nil
  show ?case by simp
next
  case (Cons x xs)
  have "map (\<lambda>i. f (n + i, (x # xs) ! i)) [0..<length (x # xs)]
        = f (n, x) # map (\<lambda>i. f (n + Suc i, xs ! i)) [0..<length xs]"
    by (simp add: upt_conv_Cons map_Suc_upt [symmetric] del: upt_Suc)
  with Cons show ?case by simp
qed

lemma notes_display_numbered: "notes_display v = spec_numbered (split_notes v)"
  by (simp add: notes_display_def spec_numbered_def enumerate_map_nth)

lemma format_lines_filter:
  "format_lines fs p acc = acc @ map (spec_line p) (filter (spec_shown p) fs)"
  by (induction fs arbitrary: acc)
     (auto simp: spec_shown_def spec_line_def notes_display_numbered split: option.splits)

lemma empty_profile_shows_nothing: "filter (spec_shown []) fs = []"
  by (induction fs) (simp_all add: spec_shown_def)

lemma spec_format_cong:
  assumes "map_of p = map_of q"
  shows "spec_format allowed p = spec_format allowed q"
proof -
  have "spec_shown p = spec_shown q" and "spec_line p = spec_line q"
    using assms by (simp_all add: fun_eq_iff spec_shown_def spec_line_def)
  then show ?thesis by (simp add: spec_format_def Let_def)
qed

text \<open>
  C9. \<open>format_profile_summary\<close> is the summary of the specification: one line for each
  field of the allow-list that the profile holds with a non-empty value, in the order of
  the allow-list, the notes as entries numbered from 1 and separated by spaces, and the
  sentinel when no field is shown (in particular for an empty profile). The order in
  which the profile holds its fields plays no part: two managers with the same
  allow-list whose profiles hold the same values give the same summary.
\<close>

theorem format_profile_summary_spec:
  "format_profile_summary m user_id session_id
     = spec_format (allowed_fields m) (get_user_profile m user_id session_id) \<and>
   (allowed_fields m' = allowed_fields m \<and>
    map_of (get_user_profile m' user_id session_id)
      = map_of (get_user_profile m user_id session_id)
    \<longrightarrow> format_profile_summary m' user_id session_id
          = format_profile_summary m user_id session_id)"
proof -
  have eq: "format_profile_summary k user_id session_id
              = spec_format (allowed_fields k) (get_user_profile k user_id session_id)" for k
    by (simp add: format_profile_summary_def spec_format_def Let_def format_lines_filter
          empty_profile_shows_nothing)
  show ?thesis
    using spec_format_cong [of "get_user_profile m' user_id session_id"
        "get_user_profile m user_id session_id" "allowed_fields m"]
    by (auto simp: eq)
qed

theorem format_profile_summary_spec_witness:
  "format_profile_summary
     \<lparr>allowed_fields = [ascii ''name'', NOTES, ascii ''age''], max_notes_count = 5,
      user_data = [(ascii ''u'', [(ascii ''age'', ascii ''7''), (ascii ''name'', []),
                                  (NOTES, ascii ''x;y'')])],
      saved = None\<rparr> (ascii ''u'') None
   = ascii ''- '' @ NOTES @ FW_COLON @ ascii ''1.x 2.y'' @ [0x0A] @
     ascii ''- age'' @ FW_COLON @ ascii ''7'' \<and>
   format_profile_summary
     \<lparr>allowed_fields = [ascii ''name'', NOTES, ascii ''age''], max_notes_count = 5,
      user_data = [(ascii ''u'', [(NOTES, ascii ''x;y''), (ascii ''name'', []),
                                  (ascii ''age'', ascii ''7'')])],
      saved = None\<rparr> (ascii ''u'') None
   = ascii ''- '' @ NOTES @ FW_COLON @ ascii ''1.x 2.y'' @ [0x0A] @
     ascii ''- age'' @ FW_COLON @ ascii ''7''"
proof -
  let ?A = "\<lparr>allowed_fields = [ascii ''name'', NOTES, ascii ''age''], max_notes_count = 5,
      user_data = [(ascii ''u'', [(ascii ''age'', ascii ''7''), (ascii ''name'', []),
                                  (NOTES, ascii ''x;y'')])],
      saved = None\<rparr>"
  let ?B = "\<lparr>allowed_fields = [ascii ''name'', NOTES, ascii ''age''], max_notes_count = 5,
      user_data = [(ascii ''u'', [(NOTES, ascii ''x;y''), (ascii ''name'', []),
                                  (ascii ''age'', ascii ''7'')])],
      saved = None\<rparr>"
  have same: "allowed_fields ?B = allowed_fields ?A \<and>
      map_of (get_user_profile ?B (ascii ''u'') None)
        = map_of (get_user_profile ?A (ascii ''u'') None)"
    by (auto simp: get_user_profile_def get_user_key_def ascii_def NOTES_def fun_eq_iff)
  have a: "format_profile_summary ?A (ascii ''u'') None
      = ascii ''- '' @ NOTES @ FW_COLON @ ascii ''1.x 2.y'' @ [0x0A] @
        ascii ''- age'' @ FW_COLON @ ascii ''7''"
    using format_profile_summary_spec [of ?A "ascii ''u''" None ?B]
    by (simp add: spec_format_def get_user_profile_def get_user_key_def spec_shown_def
        spec_line_def ascii_def NOTES_def FW_COLON_def spec_numbered_def split_notes_def
        note_delim_def str_strip_def isspace_def)
  have b: "format_profile_summary ?B (ascii ''u'') None
             = format_profile_summary ?A (ascii ''u'') None"
    using format_profile_summary_spec [of ?A "ascii ''u''" None ?B] same by blast
  show ?thesis using a b by simp
qed

section \<open>Properties of the sanitizer\<close>

lemma block_match_Nil: "block_match [] = None"
  by (simp add: block_match_def)

lemma sub_no_block: "\<not> has_block s \<Longrightarrow> block_pattern_sub s = s"
  by (induction s) auto

lemma sub_length_le: "length (block_pattern_sub s) \<le> length s"
proof (induction s rule: block_pattern_sub.induct)
  case 1
  show ?case by simp
next
  case (2 c cs)
  show ?case
  proof (cases "block_match (c # cs)")
    case None
    with 2 show ?thesis by simp
  next
    case (Some rest)
    with 2 have "length (block_pattern_sub rest) \<le> length rest" by simp
    also have "length rest < length (c # cs)" using Some by (rule block_match_shorter)
    finally show ?thesis using Some by simp
  qed
qed

lemma sub_block_shorter: "has_block s \<Longrightarrow> length (block_pattern_sub s) < length s"
proof (induction s)
  case Nil
  then show ?case by simp
next
  case (Cons c cs)
  show ?case
  proof (cases "block_match (c # cs)")
    case None
    with Cons show ?thesis by simp
  next
    case (Some rest)
    have "length (block_pattern_sub rest) \<le> length rest" by (rule sub_length_le)
    also have "length rest < length (c # cs)" using Some by (rule block_match_shorter)
    finally show ?thesis using Some by simp
  qed
qed

lemma str_strip_length_le: "length (str_strip s) \<le> length s"
proof -
  have "length (dropWhile isspace (rev (dropWhile isspace s)))
          \<le> length (rev (dropWhile isspace s))"
    by (rule length_dropWhile_le)
  also have "\<dots> = length (dropWhile isspace s)" by simp
  also have "\<dots> \<le> length s" by (rule length_dropWhile_le)
  finally show ?thesis by (simp add: str_strip_def)
qed

lemma dropWhile_rev_dropWhile:
  "dropWhile P (rev (dropWhile P (rev (dropWhile P s)))) = rev (dropWhile P (rev (dropWhile P s)))"
proof (cases "rev (dropWhile P (rev (dropWhile P s)))")
  case Nil
  show ?thesis unfolding Nil by simp
next
  case (Cons b bs)
  define a where "a = dropWhile P s"
  have "rev a = takeWhile P (rev a) @ dropWhile P (rev a)" by simp
  then have "a = rev (dropWhile P (rev a)) @ rev (takeWhile P (rev a))"
    by (metis rev_append rev_rev_ident)
  then obtain c where "a = (b # bs) @ c"
    using Cons unfolding a_def by metis
  then have "hd a = b" and "a \<noteq> []" by simp_all
  then have "\<not> P b" unfolding a_def using hd_dropWhile [of P s] by blast
  then show ?thesis using Cons by simp
qed

lemma str_strip_idem: "str_strip (str_strip s) = str_strip s"
  by (simp add: str_strip_def dropWhile_rev_dropWhile)

text \<open>
  C1, amended. Cleaning a text twice gives what cleaning it once gives exactly when the
  cleaned text holds no block any more. (One pass can leave a block: removing a block
  joins the text on its two sides, which may form a new one.)
\<close>

theorem clean_text_idempotent_iff:
  "clean_text (clean_text t) = clean_text t \<longleftrightarrow> \<not> has_block (clean_text t)"
proof
  assume eq: "clean_text (clean_text t) = clean_text t"
  show "\<not> has_block (clean_text t)"
  proof
    assume "has_block (clean_text t)"
    then have "length (block_pattern_sub (clean_text t)) < length (clean_text t)"
      by (rule sub_block_shorter)
    moreover have "length (clean_text (clean_text t)) \<le> length (block_pattern_sub (clean_text t))"
      unfolding clean_text_def by (rule str_strip_length_le)
    ultimately show False using eq by simp
  qed
next
  assume "\<not> has_block (clean_text t)"
  then have "block_pattern_sub (clean_text t) = clean_text t" by (rule sub_no_block)
  then have "clean_text (clean_text t) = str_strip (clean_text t)"
    by (simp add: clean_text_def)
  then show "clean_text (clean_text t) = clean_text t"
    by (simp add: clean_text_def str_strip_idem)
qed

text \<open>
  C1, as it is stated, fails: a block nested in the keyword of another is removed by the
  first pass, and what remains is a block that only the second pass removes.
\<close>

theorem clean_text_not_idempotent_counterexample:
  "clean_text (ascii ''[Profile[Profile:x]:y]'') = ascii ''[Profile:y]'' \<and>
   clean_text (clean_text (ascii ''[Profile[Profile:x]:y]'')) = [] \<and>
   clean_text (clean_text (ascii ''[Profile[Profile:x]:y]''))
     \<noteq> clean_text (ascii ''[Profile[Profile:x]:y]'')"
proof -
  have a: "clean_text (ascii ''[Profile[Profile:x]:y]'') = ascii ''[Profile:y]''"
    by (simp add: clean_text_def ascii_def block_match_def isspace_def ci_match_def str_strip_def)
  have b: "clean_text (ascii ''[Profile:y]'') = []"
    by (simp add: clean_text_def ascii_def block_match_def isspace_def ci_match_def str_strip_def)
  show ?thesis by (simp add: a b) (simp add: ascii_def)
qed

theorem clean_text_idempotent_iff_witness:
  "\<not> has_block (clean_text (ascii '' Hi [Profile: name=Ann] there [profiledelete: 1] ''))
   \<and> clean_text (ascii '' Hi [Profile: name=Ann] there [profiledelete: 1] '') = ascii ''Hithere''
   \<and> clean_text (clean_text (ascii '' Hi [Profile: name=Ann] there [profiledelete: 1] ''))
       = clean_text (ascii '' Hi [Profile: name=Ann] there [profiledelete: 1] '')"
proof -
  have a: "clean_text (ascii '' Hi [Profile: name=Ann] there [profiledelete: 1] '') = ascii ''Hithere''"
    by (simp add: clean_text_def ascii_def block_match_def isspace_def ci_match_def str_strip_def)
  have b: "\<not> has_block (ascii ''Hithere'')"
    by (simp add: ascii_def block_match_def isspace_def)
  show ?thesis
    using clean_text_idempotent_iff [of "ascii '' Hi [Profile: name=Ann] there [profiledelete: 1] ''"] a b
    by simp
qed

section \<open>Facts about the notes list\<close>

lemma re_split_nonempty: "re_split d s \<noteq> []"
  by (induction s) (simp_all add: Let_def)

lemma re_split_pieces: "w \<in> set (re_split d s) \<Longrightarrow> c \<in> set w \<Longrightarrow> \<not> d c"
proof (induction s arbitrary: w)
  case Nil
  then show ?case by simp
next
  case (Cons a s)
  obtain v vs where vs: "re_split d s = v # vs"
    using re_split_nonempty [of d s] by (cases "re_split d s") auto
  show ?case
  proof (cases "d a")
    case True
    with Cons.prems have "w = [] \<or> w \<in> set (re_split d s)" by (simp add: Let_def)
    with Cons show ?thesis by auto
  next
    case False
    with Cons.prems vs have "w = a # v \<or> w \<in> set vs" by (simp add: Let_def)
    then show ?thesis
    proof
      assume "w = a # v"
      with Cons.prems(2) have "c = a \<or> c \<in> set v" by auto
      with False Cons.IH [of v] vs show ?thesis by auto
    next
      assume "w \<in> set vs"
      with Cons.IH [of w] Cons.prems(2) vs show ?thesis by simp
    qed
  qed
qed

lemma set_str_strip: "set (str_strip s) \<subseteq> set s"
proof -
  have "set (str_strip s) \<subseteq> set (rev (dropWhile isspace s))"
    unfolding str_strip_def set_rev by (auto dest: set_dropWhileD)
  also have "\<dots> \<subseteq> set s" by (auto dest: set_dropWhileD)
  finally show ?thesis .
qed


lemma split_notes_ok: "e \<in> set (split_notes s) \<Longrightarrow> note_ok e"
proof -
  assume "e \<in> set (split_notes s)"
  then obtain n where n: "n \<in> set (re_split note_delim s)" "str_strip n \<noteq> []" "e = str_strip n"
    by (auto simp: split_notes_def)
  have "\<forall>c\<in>set e. \<not> note_delim c"
    using re_split_pieces [OF n(1)] set_str_strip [of n] n(3) by auto
  then show "note_ok e"
    using n by (simp add: note_ok_def str_strip_idem list_all_iff)
qed

lemma re_split_plain: "list_all (\<lambda>c. \<not> d c) x \<Longrightarrow> re_split d x = [x]"
  by (induction x) (simp_all add: Let_def)

lemma re_split_append:
  "list_all (\<lambda>c. \<not> d c) x \<Longrightarrow> d s \<Longrightarrow> re_split d (x @ s # r) = x # re_split d r"
  by (induction x) (simp_all add: Let_def)

lemma re_split_join:
  "ns \<noteq> [] \<Longrightarrow> list_all (list_all (\<lambda>c. \<not> d c)) ns \<Longrightarrow> d s
     \<Longrightarrow> re_split d (join [s] ns) = ns"
proof (induction "[s]" ns rule: join.induct)
  case 1
  then show ?case by simp
next
  case (2 x)
  then show ?case by (simp add: re_split_plain)
next
  case (3 x y ys)
  then show ?case by (simp add: re_split_append)
qed

lemma split_notes_join:
  assumes "list_all note_ok ns"
  shows "split_notes (join NOTE_SEP ns) = ns"
proof (cases "ns = []")
  case True
  then show ?thesis by (simp add: split_notes_def str_strip_def)
next
  case False
  have "list_all (list_all (\<lambda>c. \<not> note_delim c)) ns"
    using assms by (simp add: list_all_iff note_ok_def)
  then have "re_split note_delim (join NOTE_SEP ns) = ns"
    using False by (simp add: NOTE_SEP_def re_split_join note_delim_def)
  moreover have "filter (\<lambda>n. str_strip n \<noteq> []) ns = ns"
    using assms by (auto simp: list_all_iff note_ok_def intro: filter_True)
  moreover have "map str_strip ns = ns"
    using assms by (auto simp: list_all_iff note_ok_def intro: map_idI)
  ultimately show ?thesis by (simp add: split_notes_def)
qed

lemma join_nonempty: "ns \<noteq> [] \<Longrightarrow> list_all (\<lambda>e. e \<noteq> []) ns \<Longrightarrow> join sep ns \<noteq> []"
  by (induction sep ns rule: join.induct) simp_all

section \<open>Properties of \<open>delete_field\<close>\<close>

lemma NOTES_neq_LAST_UPDATED: "NOTES \<noteq> LAST_UPDATED"
  by (simp add: NOTES_def LAST_UPDATED_def ascii_def)

lemma not_isdigit_char_underscore: "\<not> isdigit_char 0x5F"
  by (simp add: isdigit_char_def decimal_value_def decimal_zeros_def other_digits_def)

lemma not_isdigit_char_U5907: "\<not> isdigit_char 0x5907"
  by (simp add: isdigit_char_def decimal_value_def decimal_zeros_def other_digits_def)

lemma isdigit_not_special: "isdigit t \<Longrightarrow> t \<noteq> NOTES \<and> t \<noteq> LAST_UPDATED"
  using not_isdigit_char_underscore not_isdigit_char_U5907
  by (auto simp: isdigit_def NOTES_def LAST_UPDATED_def ascii_def)

lemma map_of_store_notes:
  "map_of (store_notes ns p) f =
     (if f = NOTES then (if ns \<noteq> [] then Some (join NOTE_SEP ns) else None) else map_of p f)"
  by (simp add: store_notes_def update_conv' delete_conv')

lemma profile_after_commit:
  "get_user_profile (commit m (get_user_key uid sid) p now) uid sid = AList.update LAST_UPDATED now p"
  by (simp add: get_user_profile_def commit_def save_data_def stamp_profile_def update_conv')

lemma user_data_after_commit:
  "map_of (user_data (commit m key p now)) key = Some (AList.update LAST_UPDATED now p)"
  by (simp add: commit_def save_data_def stamp_profile_def update_conv')

lemma user_data_commit:
  "user_data (commit m key p now)
     = AList.update key (AList.update LAST_UPDATED now p) (user_data m)"
  by (simp add: commit_def save_data_def stamp_profile_def)

text \<open>
  A successful branch leaves the stamped manager with the write attempted, and returns
  its pair when the store could be written, the exception of the write otherwise.
\<close>

lemma save_and_return_stamp:
  "save_and_return (stamp_profile m key p now) r =
     (if store_encodable (user_data (commit m key p now)) then Inr r
      else Inl UnicodeEncodeError,
      commit m key p now)"
  by (simp add: save_and_return_def commit_def save_data_def)

lemma length_pop_at: "i < length xs \<Longrightarrow> length (pop_at i xs) = length xs - 1"
  by (simp add: pop_at_def)

lemma set_pop_at: "set (pop_at i xs) \<subseteq> set xs"
  by (auto simp: pop_at_def dest: in_set_takeD in_set_dropD)

lemma delete_field_index:
  assumes "map_of (user_data m) (get_user_key uid sid) = Some p"
    and "map_of p t = None" and "map_of p NOTES = Some stored"
    and "isdigit t" and "py_int t = Inr n" and "1 \<le> n" and "n \<le> int (length (split_notes stored))"
  shows "delete_field m uid t sid now =
           save_and_return
             (stamp_profile m (get_user_key uid sid)
                (store_notes (pop_at (nat (n - 1)) (split_notes stored)) p) now)
             (True, DeletedNoteMsg t (split_notes stored ! nat (n - 1)))"
  using assms by (simp add: delete_field_def Let_def)

lemma delete_field_substring:
  assumes "map_of (user_data m) (get_user_key uid sid) = Some p"
    and "map_of p t = None" and "map_of p NOTES = Some stored"
    and "\<not> isdigit t"
    and "length (filter (\<lambda>n. \<not> str_in t n) (split_notes stored)) < length (split_notes stored)"
  shows "delete_field m uid t sid now =
           save_and_return
             (stamp_profile m (get_user_key uid sid)
                (store_notes (filter (\<lambda>n. \<not> str_in t n) (split_notes stored)) p) now)
             (True, DeletedMatchingMsg t)"
  using assms by (simp add: delete_field_def Let_def)

lemma valid_indices_isdigit: "valid_indices ts k \<Longrightarrow> t \<in> set ts \<Longrightarrow> isdigit t"
  by (induction ts k rule: valid_indices.induct) auto

lemma delete_each_all:
  assumes "map_of (user_data m) (get_user_key uid sid) = Some p"
    and "map_of p NOTES = Some stored"
    and "calls \<noteq> []" and "length calls = length (split_notes stored)"
    and "valid_indices (map fst calls) (length calls)"
    and "\<forall>c\<in>set calls. map_of p (fst c) = None"
  shows "map_of (get_user_profile (delete_each m uid calls sid) uid sid) NOTES = None"
  using assms
proof (induction calls arbitrary: m p stored)
  case Nil
  then show ?case by simp
next
  case (Cons c rest)
  obtain t now where c: "c = (t, now)" by (cases c)
  let ?notes = "split_notes stored"
  from Cons.prems(5) c obtain n where t: "isdigit t" "py_int t = Inr n" "1 \<le> n"
      "n \<le> int (length (c # rest))" and rest_valid: "valid_indices (map fst rest) (length rest)"
    by (auto split: sum.splits)
  have n_le: "n \<le> int (length ?notes)" using t(4) Cons.prems(4) by simp
  let ?notes' = "pop_at (nat (n - 1)) ?notes"
  let ?p1 = "AList.update LAST_UPDATED now (store_notes ?notes' p)"
  let ?m1 = "commit m (get_user_key uid sid) (store_notes ?notes' p) now"
  have "delete_field m uid t sid now
      = save_and_return (stamp_profile m (get_user_key uid sid) (store_notes ?notes' p) now)
          (True, DeletedNoteMsg t (?notes ! nat (n - 1)))"
    using Cons.prems(1,2,6) t n_le c by (intro delete_field_index) auto
  then have step: "snd (delete_field m uid t sid now) = ?m1"
    by (simp add: save_and_return_stamp)
  have len': "length ?notes' = length rest"
    using t(3) n_le Cons.prems(4) by (simp add: length_pop_at)
  have each: "delete_each m uid (c # rest) sid = delete_each ?m1 uid rest sid"
    by (simp add: c step)
  show ?case
  proof (cases "rest = []")
    case True
    then have "?notes' = []" using len' by simp
    then show ?thesis
      using True each NOTES_neq_LAST_UPDATED
      by (simp add: profile_after_commit update_conv' map_of_store_notes)
  next
    case False
    then have ne: "?notes' \<noteq> []" using len' by auto
    have ok: "list_all note_ok ?notes'"
      using set_pop_at [of "nat (n - 1)" ?notes] split_notes_ok [of _ stored]
      by (auto simp: list_all_iff)
    have a: "map_of (user_data ?m1) (get_user_key uid sid) = Some ?p1"
      by (rule user_data_after_commit)
    have b: "map_of ?p1 NOTES = Some (join NOTE_SEP ?notes')"
      using ne NOTES_neq_LAST_UPDATED by (simp add: update_conv' map_of_store_notes)
    have d: "length rest = length (split_notes (join NOTE_SEP ?notes'))"
      using ok len' by (simp add: split_notes_join)
    have e: "\<forall>c\<in>set rest. map_of ?p1 (fst c) = None"
    proof
      fix c' assume c': "c' \<in> set rest"
      then have "isdigit (fst c')" using rest_valid valid_indices_isdigit by force
      then have "fst c' \<noteq> NOTES" "fst c' \<noteq> LAST_UPDATED"
        using isdigit_not_special by auto
      moreover have "map_of p (fst c') = None" using Cons.prems(6) c' by simp
      ultimately show "map_of ?p1 (fst c') = None"
        by (simp add: update_conv' map_of_store_notes)
    qed
    show ?thesis
      unfolding each using Cons.IH [OF a b False d rest_valid e] .
  qed
qed

lemma store_notes_not_empty_string:
  assumes "list_all note_ok ns"
  shows "map_of (AList.update LAST_UPDATED now (store_notes ns p)) NOTES \<noteq> Some []"
proof (cases "ns = []")
  case True
  then show ?thesis
    using NOTES_neq_LAST_UPDATED by (simp add: update_conv' map_of_store_notes)
next
  case False
  have "list_all (\<lambda>e. e \<noteq> []) ns"
    using assms by (simp add: list_all_iff note_ok_def)
  then have "join NOTE_SEP ns \<noteq> []" using False by (rule join_nonempty [rotated])
  then show ?thesis
    using False NOTES_neq_LAST_UPDATED by (simp add: update_conv' map_of_store_notes)
qed

lemma delete_field_notes_success:
  assumes "map_of (user_data m) (get_user_key uid sid) = Some p"
    and "map_of p t = None"
    and "delete_field m uid t sid now = (Inr (True, msg), m')"
  shows "\<exists>ns. set ns \<subseteq> set (split_notes (the (map_of p NOTES)))
           \<and> m' = commit m (get_user_key uid sid) (store_notes ns p) now"
  using assms
  apply (auto simp: delete_field_def Let_def save_and_return_stamp
      split: option.splits if_splits sum.splits)
   apply (rule exI, rule conjI [rotated], rule refl, rule set_pop_at)
  apply (rule exI, rule conjI [rotated], rule refl, rule filter_is_subset)
  done

text \<open>
  C8. For a profile that holds a notes field: deleting entries one per call by valid
  1-based index, as many calls as there are entries, ends with the notes field absent;
  a substring delete that matches every entry removes the notes field (and returns
  success, unless the write of the file that follows the removal raises); and after any
  successful delete of a target that is not a field name, the notes field is absent or
  not empty, never the empty string.
\<close>

theorem notes_absent_after_last_delete:
  assumes key: "map_of (user_data m) (get_user_key uid sid) = Some p"
    and stored: "map_of p NOTES = Some stored"
  shows
    "(calls \<noteq> [] \<and> length calls = length (split_notes stored) \<and>
      valid_indices (map fst calls) (length calls) \<and> (\<forall>c\<in>set calls. map_of p (fst c) = None)
        \<longrightarrow> map_of (get_user_profile (delete_each m uid calls sid) uid sid) NOTES = None) \<and>
     (map_of p t = None \<and> \<not> isdigit t \<and> split_notes stored \<noteq> [] \<and>
      list_all (str_in t) (split_notes stored)
        \<longrightarrow> (\<exists>m'. delete_field m uid t sid now =
                    (if store_encodable (user_data m') then Inr (True, DeletedMatchingMsg t)
                     else Inl UnicodeEncodeError, m') \<and>
                  map_of (get_user_profile m' uid sid) NOTES = None)) \<and>
     (map_of p t = None \<and> delete_field m uid t sid now = (Inr (True, msg), m')
        \<longrightarrow> map_of (get_user_profile m' uid sid) NOTES \<noteq> Some [])"
proof (intro conjI impI)
  assume "calls \<noteq> [] \<and> length calls = length (split_notes stored) \<and>
      valid_indices (map fst calls) (length calls) \<and> (\<forall>c\<in>set calls. map_of p (fst c) = None)"
  then show "map_of (get_user_profile (delete_each m uid calls sid) uid sid) NOTES = None"
    using delete_each_all [OF key stored] by blast
next
  assume h: "map_of p t = None \<and> \<not> isdigit t \<and> split_notes stored \<noteq> [] \<and>
      list_all (str_in t) (split_notes stored)"
  then have none_left: "filter (\<lambda>n. \<not> str_in t n) (split_notes stored) = []"
    by (simp add: list_all_iff)
  let ?m' = "commit m (get_user_key uid sid) (store_notes [] p) now"
  have "delete_field m uid t sid now =
      (if store_encodable (user_data ?m') then Inr (True, DeletedMatchingMsg t)
       else Inl UnicodeEncodeError, ?m')"
    using delete_field_substring [OF key _ stored, of t now] h none_left
    by (simp add: save_and_return_stamp)
  moreover have "map_of (get_user_profile ?m' uid sid) NOTES = None"
    using NOTES_neq_LAST_UPDATED
    by (simp add: profile_after_commit update_conv' map_of_store_notes)
  ultimately show "\<exists>m'. delete_field m uid t sid now =
        (if store_encodable (user_data m') then Inr (True, DeletedMatchingMsg t)
         else Inl UnicodeEncodeError, m') \<and>
      map_of (get_user_profile m' uid sid) NOTES = None"
    by blast
next
  assume h: "map_of p t = None \<and> delete_field m uid t sid now = (Inr (True, msg), m')"
  then obtain ns where ns: "set ns \<subseteq> set (split_notes (the (map_of p NOTES)))"
      "m' = commit m (get_user_key uid sid) (store_notes ns p) now"
    using delete_field_notes_success [OF key] by blast
  then have "list_all note_ok ns"
    using split_notes_ok by (auto simp: list_all_iff)
  then show "map_of (get_user_profile m' uid sid) NOTES \<noteq> Some []"
    unfolding ns(2) profile_after_commit by (rule store_notes_not_empty_string)
qed

lemma isdigit_char_ascii_digits:
  "isdigit_char 0x31" "isdigit_char 0x32" "\<not> isdigit_char 0x61"
  by (simp_all add: isdigit_char_def decimal_value_def decimal_zeros_def other_digits_def)

theorem notes_absent_after_last_delete_witness:
  "map_of (get_user_profile
      (delete_each
         \<lparr>allowed_fields = [NOTES], max_notes_count = 5,
          user_data = [(ascii ''u1'', [(NOTES, ascii ''tea; cat'')])], saved = None\<rparr>
         (ascii ''u1'') [(ascii ''2'', ascii ''09:00''), (ascii ''1'', ascii ''09:01'')] None)
      (ascii ''u1'') None) NOTES = None \<and>
   (\<exists>m'. delete_field
           \<lparr>allowed_fields = [NOTES], max_notes_count = 5,
            user_data = [(ascii ''u1'', [(NOTES, ascii ''tea; cat'')])], saved = None\<rparr>
           (ascii ''u1'') (ascii ''a'') None (ascii ''09:00'')
         = (Inr (True, DeletedMatchingMsg (ascii ''a'')), m') \<and>
         map_of (get_user_profile m' (ascii ''u1'') None) NOTES = None)"
proof -
  let ?m = "\<lparr>allowed_fields = [NOTES], max_notes_count = 5,
          user_data = [(ascii ''u1'', [(NOTES, ascii ''tea; cat'')])], saved = None\<rparr>"
  let ?p = "[(NOTES, ascii ''tea; cat'')]"
  have key: "map_of (user_data ?m) (get_user_key (ascii ''u1'') None) = Some ?p"
    by (simp add: get_user_key_def)
  have stored: "map_of ?p NOTES = Some (ascii ''tea; cat'')" by simp
  have ns: "split_notes (ascii ''tea; cat'') = [ascii ''tea'', ascii ''cat'']"
    by (simp add: split_notes_def ascii_def note_delim_def str_strip_def isspace_def)
  have d1: "isdigit (ascii ''1'')" "isdigit (ascii ''2'')" "\<not> isdigit (ascii ''a'')"
    by (simp_all add: isdigit_def ascii_def isdigit_char_ascii_digits)
  have i1: "py_int (ascii ''1'') = Inr 1" "py_int (ascii ''2'') = Inr 2"
    by (simp_all add: py_int_def int_max_str_digits_def ascii_def decimal_value_def
          decimal_zeros_def)
  have calls: "[(ascii ''2'', ascii ''09:00''), (ascii ''1'', ascii ''09:01'')] \<noteq> [] \<and>
      length [(ascii ''2'', ascii ''09:00''), (ascii ''1'', ascii ''09:01'')]
        = length (split_notes (ascii ''tea; cat'')) \<and>
      valid_indices (map fst [(ascii ''2'', ascii ''09:00''), (ascii ''1'', ascii ''09:01'')])
        (length [(ascii ''2'', ascii ''09:00''), (ascii ''1'', ascii ''09:01'')]) \<and>
      (\<forall>c\<in>set [(ascii ''2'', ascii ''09:00''), (ascii ''1'', ascii ''09:01'')].
          map_of ?p (fst c) = None)"
    by (simp add: ns d1 i1) (simp add: ascii_def NOTES_def)
  have sub: "map_of ?p (ascii ''a'') = None \<and> \<not> isdigit (ascii ''a'') \<and>
      split_notes (ascii ''tea; cat'') \<noteq> [] \<and>
      list_all (str_in (ascii ''a'')) (split_notes (ascii ''tea; cat''))"
    by (simp add: ns d1) (simp add: ascii_def NOTES_def)
  have un: "filter (\<lambda>n. \<not> str_in (ascii ''a'') n) (split_notes (ascii ''tea; cat'')) = []"
    using sub by (simp add: list_all_iff)
  have "snd (delete_field ?m (ascii ''u1'') (ascii ''a'') None (ascii ''09:00''))
          = commit ?m (get_user_key (ascii ''u1'') None) (store_notes [] ?p) (ascii ''09:00'')"
    using delete_field_substring [OF key _ stored, of "ascii ''a''" "ascii ''09:00''"] sub un
    by (simp add: save_and_return_stamp)
  then have enc: "store_encodable
      (user_data (snd (delete_field ?m (ascii ''u1'') (ascii ''a'') None (ascii ''09:00''))))"
    by (simp add: user_data_commit store_notes_def get_user_key_def store_encodable_def
          profile_encodable_def encodable_def is_surrogate_def ascii_def LAST_UPDATED_def)
  from notes_absent_after_last_delete [OF key stored,
        of "[(ascii ''2'', ascii ''09:00''), (ascii ''1'', ascii ''09:01'')]" "ascii ''a''"
           "ascii ''09:00''"] calls sub
  obtain m' where
    all_gone: "map_of (get_user_profile
        (delete_each ?m (ascii ''u1'')
           [(ascii ''2'', ascii ''09:00''), (ascii ''1'', ascii ''09:01'')] None)
        (ascii ''u1'') None) NOTES = None"
    and m': "delete_field ?m (ascii ''u1'') (ascii ''a'') None (ascii ''09:00'') =
        (if store_encodable (user_data m') then Inr (True, DeletedMatchingMsg (ascii ''a''))
         else Inl UnicodeEncodeError, m')"
      "map_of (get_user_profile m' (ascii ''u1'') None) NOTES = None"
    by blast
  from m'(1) have "snd (delete_field ?m (ascii ''u1'') (ascii ''a'') None (ascii ''09:00'')) = m'"
    by simp
  with enc have "store_encodable (user_data m')" by simp
  with m' have "delete_field ?m (ascii ''u1'') (ascii ''a'') None (ascii ''09:00'')
      = (Inr (True, DeletedMatchingMsg (ascii ''a'')), m')"
    by simp
  with all_gone m'(2) show ?thesis by blast
qed

text \<open>
  C7, at an input where the code does not do what the claim says. The target U+00B2
  (superscript two) passes \<open>isdigit\<close>, \<open>int\<close> rejects it, and \<open>delete_field\<close> raises
  \<open>ValueError\<close> instead of returning a failure; the manager is unchanged.
\<close>

theorem delete_field_superscript_digit:
  "isdigit [0xB2] \<and> py_int [0xB2] = Inl ValueError \<and>
   delete_field
     \<lparr>allowed_fields = [NOTES], max_notes_count = 5,
      user_data = [(ascii ''u1'', [(NOTES, ascii ''tea'')])], saved = None\<rparr>
     (ascii ''u1'') [0xB2] None (ascii ''09:00'')
   = (Inl ValueError,
      \<lparr>allowed_fields = [NOTES], max_notes_count = 5,
       user_data = [(ascii ''u1'', [(NOTES, ascii ''tea'')])], saved = None\<rparr>)"
proof -
  have a: "isdigit [0xB2]"
    by (simp add: isdigit_def isdigit_char_def other_digits_def)
  have b: "py_int [0xB2] = Inl ValueError"
    by (simp add: py_int_def int_max_str_digits_def decimal_value_def decimal_zeros_def)
  show ?thesis
    by (simp add: a b delete_field_def get_user_key_def) (simp add: NOTES_def)
qed

section \<open>Properties of the notes merge\<close>

lemma split_notes_Nil: "split_notes [] = []"
  by (simp add: split_notes_def str_strip_def)

lemma existing_notes_split: "existing_notes e = split_notes e"
  by (simp add: existing_notes_def split_notes_Nil)

lemma new_notes_ok:
  assumes "e \<in> set (new_notes v)" and "str_strip e = e"
  shows "note_ok e"
proof -
  from assms(1) obtain n where n: "n \<in> set (re_split note_delim v)" "str_strip n \<noteq> []"
      "e = take 20 (str_strip n)"
    by (auto simp: new_notes_def)
  have "set e \<subseteq> set n"
    using set_str_strip [of n] n(3) by (auto dest: in_set_takeD)
  then have "\<forall>c\<in>set e. \<not> note_delim c"
    using re_split_pieces [OF n(1)] by auto
  moreover have "e \<noteq> []" using n by simp
  ultimately show ?thesis using assms(2) by (simp add: note_ok_def list_all_iff)
qed

lemma set_append_new: "set (append_new acc new) = set acc \<union> set new"
  by (induction new arbitrary: acc) auto

lemma append_new_present: "set new \<subseteq> set acc \<Longrightarrow> append_new acc new = acc"
  by (induction new arbitrary: acc) auto

lemma distinct_append_new: "distinct acc \<Longrightarrow> distinct (append_new acc new)"
  by (induction new arbitrary: acc) auto

lemma set_slice_from: "set (slice_from i xs) \<subseteq> set xs"
  by (auto simp: slice_from_def dest: in_set_dropD)

lemma distinct_slice_from: "distinct xs \<Longrightarrow> distinct (slice_from i xs)"
  by (simp add: slice_from_def)

lemma slice_from_idem:
  "0 \<le> n \<Longrightarrow> slice_from (- n) (slice_from (- n) xs) = slice_from (- n) xs"
  by (auto simp: slice_from_def)

lemma notes_after_update:
  assumes "NOTES \<in> set (allowed_fields m)"
    and "update_field m uid NOTES v sid now = (r, m1)"
  shows "map_of (get_user_profile m1 uid sid) NOTES =
           Some (join NOTE_SEP (slice_from (- max_notes_count m)
                   (append_new (stored_notes m uid sid) (new_notes (str_strip v)))))"
    and "max_notes_count m1 = max_notes_count m"
    and "allowed_fields m1 = allowed_fields m"
  using assms NOTES_neq_LAST_UPDATED
  by (auto simp: update_field_def Let_def get_user_profile_def save_and_return_cases update_conv'
        merge_notes_def stored_notes_def existing_notes_split split_notes_Nil
        split: option.splits if_splits)

text \<open>
  C5, amended. Submitting the same note text to \<open>update_field\<close> twice in a row leaves
  the stored notes value of the first submission, provided the cap is not negative, the
  entries of the text are still trimmed after their cut to 20 characters, and every
  entry of the text is among the stored notes after the first submission (the cap
  evicted none of them). An entry that is already in the list is not appended again:
  a notes list without duplicates stays without duplicates.
\<close>

theorem resubmit_notes_same:
  assumes allowed: "NOTES \<in> set (allowed_fields m)"
    and cap: "0 \<le> max_notes_count m"
    and first: "update_field m uid NOTES v sid now1 = (r1, m1)"
    and second: "update_field m1 uid NOTES v sid now2 = (r2, m2)"
    and trimmed: "list_all (\<lambda>e. str_strip e = e) (new_notes (str_strip v))"
    and kept: "set (new_notes (str_strip v)) \<subseteq> set (stored_notes m1 uid sid)"
  shows "map_of (get_user_profile m2 uid sid) NOTES = map_of (get_user_profile m1 uid sid) NOTES
       \<and> (distinct (stored_notes m uid sid) \<longrightarrow> distinct (stored_notes m1 uid sid))"
proof -
  let ?new = "new_notes (str_strip v)"
  let ?n1 = "slice_from (- max_notes_count m) (append_new (stored_notes m uid sid) ?new)"
  have s1: "map_of (get_user_profile m1 uid sid) NOTES = Some (join NOTE_SEP ?n1)"
    using notes_after_update(1) [OF allowed first] .
  have "note_ok e" if "e \<in> set (stored_notes m uid sid)" for e
    using that split_notes_ok by (auto simp: stored_notes_def split: option.splits)
  moreover have "note_ok e" if "e \<in> set ?new" for e
    using that trimmed new_notes_ok by (auto simp: list_all_iff)
  ultimately have "list_all note_ok ?n1"
    using set_slice_from [of "- max_notes_count m"] set_append_new
    by (fastforce simp: list_all_iff)
  then have n1: "stored_notes m1 uid sid = ?n1"
    by (simp add: stored_notes_def s1 split_notes_join)
  have allowed1: "NOTES \<in> set (allowed_fields m1)"
    using notes_after_update(3) [OF allowed first] allowed by simp
  have "map_of (get_user_profile m2 uid sid) NOTES =
          Some (join NOTE_SEP (slice_from (- max_notes_count m1)
                  (append_new (stored_notes m1 uid sid) ?new)))"
    using notes_after_update(1) [OF allowed1 second] .
  also have "append_new (stored_notes m1 uid sid) ?new = stored_notes m1 uid sid"
    using kept by (rule append_new_present)
  also have "slice_from (- max_notes_count m1) (stored_notes m1 uid sid) = ?n1"
    using cap by (simp add: n1 notes_after_update(2) [OF allowed first] slice_from_idem)
  finally have same: "map_of (get_user_profile m2 uid sid) NOTES
      = map_of (get_user_profile m1 uid sid) NOTES"
    by (simp add: s1)
  have "distinct (stored_notes m uid sid) \<longrightarrow> distinct (stored_notes m1 uid sid)"
    by (simp add: n1 distinct_slice_from distinct_append_new)
  with same show ?thesis by simp
qed


lemma notes_after_update_snd:
  assumes "NOTES \<in> set (allowed_fields m)"
  shows "map_of (get_user_profile (snd (update_field m uid NOTES v sid now)) uid sid) NOTES =
           Some (join NOTE_SEP (slice_from (- max_notes_count m)
                   (append_new (stored_notes m uid sid) (new_notes (str_strip v)))))"
    and "max_notes_count (snd (update_field m uid NOTES v sid now)) = max_notes_count m"
    and "allowed_fields (snd (update_field m uid NOTES v sid now)) = allowed_fields m"
proof -
  obtain r m1 where u: "update_field m uid NOTES v sid now = (r, m1)"
    by (cases "update_field m uid NOTES v sid now")
  show "map_of (get_user_profile (snd (update_field m uid NOTES v sid now)) uid sid) NOTES =
           Some (join NOTE_SEP (slice_from (- max_notes_count m)
                   (append_new (stored_notes m uid sid) (new_notes (str_strip v)))))"
    and "max_notes_count (snd (update_field m uid NOTES v sid now)) = max_notes_count m"
    and "allowed_fields (snd (update_field m uid NOTES v sid now)) = allowed_fields m"
    using notes_after_update [OF assms u] by (simp_all add: u)
qed

text \<open>
  C5, as it is stated, fails: with a cap of 2 the text \<open>x;y;z\<close> leaves \<open>y\<close> and \<open>z\<close>,
  and submitted again finds \<open>x\<close> evicted, appends it and leaves \<open>z\<close> and \<open>x\<close>.
\<close>

theorem resubmit_notes_counterexample:
  "map_of (get_user_profile
      (snd (update_field
         \<lparr>allowed_fields = [NOTES], max_notes_count = 2, user_data = [], saved = None\<rparr>
         (ascii ''u1'') NOTES (ascii ''x;y;z'') None (ascii ''09:00'')))
      (ascii ''u1'') None) NOTES = Some (ascii ''y'' @ NOTE_SEP @ ascii ''z'') \<and>
   map_of (get_user_profile
      (snd (update_field
         (snd (update_field
            \<lparr>allowed_fields = [NOTES], max_notes_count = 2, user_data = [], saved = None\<rparr>
            (ascii ''u1'') NOTES (ascii ''x;y;z'') None (ascii ''09:00'')))
         (ascii ''u1'') NOTES (ascii ''x;y;z'') None (ascii ''09:01'')))
      (ascii ''u1'') None) NOTES = Some (ascii ''z'' @ NOTE_SEP @ ascii ''x'')"
proof -
  let ?m = "\<lparr>allowed_fields = [NOTES], max_notes_count = 2, user_data = [], saved = None\<rparr>"
  let ?m1 = "snd (update_field ?m (ascii ''u1'') NOTES (ascii ''x;y;z'') None (ascii ''09:00''))"
  have new: "new_notes (str_strip (ascii ''x;y;z'')) = [ascii ''x'', ascii ''y'', ascii ''z'']"
    by (simp add: new_notes_def str_strip_def isspace_def note_delim_def ascii_def)
  have n0: "stored_notes ?m (ascii ''u1'') None = []"
    by (simp add: stored_notes_def get_user_profile_def)
  have s1: "map_of (get_user_profile ?m1 (ascii ''u1'') None) NOTES
      = Some (ascii ''y'' @ NOTE_SEP @ ascii ''z'')"
    by (simp add: notes_after_update_snd new n0 slice_from_def) (simp add: ascii_def)
  have "split_notes (ascii ''y'' @ NOTE_SEP @ ascii ''z'') = [ascii ''y'', ascii ''z'']"
    by (simp add: split_notes_def str_strip_def isspace_def note_delim_def ascii_def NOTE_SEP_def)
  then have n1: "stored_notes ?m1 (ascii ''u1'') None = [ascii ''y'', ascii ''z'']"
    by (simp add: stored_notes_def s1)
  have a1: "NOTES \<in> set (allowed_fields ?m1)" "max_notes_count ?m1 = 2"
    by (simp_all add: notes_after_update_snd)
  have s2: "map_of (get_user_profile
      (snd (update_field ?m1 (ascii ''u1'') NOTES (ascii ''x;y;z'') None (ascii ''09:01'')))
      (ascii ''u1'') None) NOTES = Some (ascii ''z'' @ NOTE_SEP @ ascii ''x'')"
    unfolding notes_after_update_snd(1) [OF a1(1)] a1(2) new n1
    by (simp add: slice_from_def) (simp add: ascii_def)
  show ?thesis using s1 s2 by simp
qed

theorem resubmit_notes_same_witness:
  "list_all (\<lambda>e. str_strip e = e) (new_notes (str_strip (ascii ''tea; cat''))) \<and>
   set (new_notes (str_strip (ascii ''tea; cat'')))
     \<subseteq> set (stored_notes
         (snd (update_field
            \<lparr>allowed_fields = [NOTES], max_notes_count = 5, user_data = [], saved = None\<rparr>
            (ascii ''u1'') NOTES (ascii ''tea; cat'') None (ascii ''09:00'')))
         (ascii ''u1'') None) \<and>
   map_of (get_user_profile
      (snd (update_field
         (snd (update_field
            \<lparr>allowed_fields = [NOTES], max_notes_count = 5, user_data = [], saved = None\<rparr>
            (ascii ''u1'') NOTES (ascii ''tea; cat'') None (ascii ''09:00'')))
         (ascii ''u1'') NOTES (ascii ''tea; cat'') None (ascii ''09:01'')))
      (ascii ''u1'') None) NOTES
   = Some (ascii ''tea'' @ NOTE_SEP @ ascii ''cat'')"
proof -
  let ?m = "\<lparr>allowed_fields = [NOTES], max_notes_count = 5, user_data = [], saved = None\<rparr>"
  let ?v = "ascii ''tea; cat''"
  let ?m1 = "snd (update_field ?m (ascii ''u1'') NOTES ?v None (ascii ''09:00''))"
  let ?m2 = "snd (update_field ?m1 (ascii ''u1'') NOTES ?v None (ascii ''09:01''))"
  have new: "new_notes (str_strip ?v) = [ascii ''tea'', ascii ''cat'']"
    by (simp add: new_notes_def str_strip_def isspace_def note_delim_def ascii_def)
  have n0: "stored_notes ?m (ascii ''u1'') None = []"
    by (simp add: stored_notes_def get_user_profile_def)
  have s1: "map_of (get_user_profile ?m1 (ascii ''u1'') None) NOTES
      = Some (ascii ''tea'' @ NOTE_SEP @ ascii ''cat'')"
    by (simp add: notes_after_update_snd new n0 slice_from_def) (simp add: ascii_def)
  have "split_notes (ascii ''tea'' @ NOTE_SEP @ ascii ''cat'') = [ascii ''tea'', ascii ''cat'']"
    by (simp add: split_notes_def str_strip_def isspace_def note_delim_def ascii_def NOTE_SEP_def)
  then have n1: "stored_notes ?m1 (ascii ''u1'') None = [ascii ''tea'', ascii ''cat'']"
    by (simp add: stored_notes_def s1)
  have allowed: "NOTES \<in> set (allowed_fields ?m)" and cap: "0 \<le> max_notes_count ?m"
    by simp_all
  have first: "update_field ?m (ascii ''u1'') NOTES ?v None (ascii ''09:00'')
      = (fst (update_field ?m (ascii ''u1'') NOTES ?v None (ascii ''09:00'')), ?m1)"
    by simp
  have second: "update_field ?m1 (ascii ''u1'') NOTES ?v None (ascii ''09:01'')
      = (fst (update_field ?m1 (ascii ''u1'') NOTES ?v None (ascii ''09:01'')), ?m2)"
    by simp
  have trimmed: "list_all (\<lambda>e. str_strip e = e) (new_notes (str_strip ?v))"
    unfolding new by (simp add: str_strip_def isspace_def ascii_def)
  have kept: "set (new_notes (str_strip ?v)) \<subseteq> set (stored_notes ?m1 (ascii ''u1'') None)"
    by (simp add: new n1)
  show ?thesis
    using resubmit_notes_same [OF allowed cap first second trimmed kept] trimmed kept s1
    by simp
qed

text \<open>
  C3, at an input where the code does not do what the claim says. A note of 21
  characters whose 20th is a space is cut to 20 characters after its strip, so the stored
  entry ends in a space; submitted again it differs from the parsed (stripped) entry and
  is appended: the stored value then holds an entry that is not trimmed, and two
  entries that are equal after trim.
\<close>

theorem update_notes_truncation_duplicates:
  "map_of (get_user_profile
      (snd (update_field
         (snd (update_field
            \<lparr>allowed_fields = [NOTES], max_notes_count = 5, user_data = [], saved = None\<rparr>
            (ascii ''u1'') NOTES (ascii ''aaaaaaaaaaaaaaaaaaa b'') None (ascii ''09:00'')))
         (ascii ''u1'') NOTES (ascii ''aaaaaaaaaaaaaaaaaaa b'') None (ascii ''09:01'')))
      (ascii ''u1'') None) NOTES
     = Some (ascii ''aaaaaaaaaaaaaaaaaaa'' @ NOTE_SEP @ ascii ''aaaaaaaaaaaaaaaaaaa '') \<and>
   re_split note_delim (ascii ''aaaaaaaaaaaaaaaaaaa'' @ NOTE_SEP @ ascii ''aaaaaaaaaaaaaaaaaaa '')
     = [ascii ''aaaaaaaaaaaaaaaaaaa'', ascii ''aaaaaaaaaaaaaaaaaaa ''] \<and>
   str_strip (ascii ''aaaaaaaaaaaaaaaaaaa '') = ascii ''aaaaaaaaaaaaaaaaaaa''"
proof -
  let ?m = "\<lparr>allowed_fields = [NOTES], max_notes_count = 5, user_data = [], saved = None\<rparr>"
  let ?v = "ascii ''aaaaaaaaaaaaaaaaaaa b''"
  let ?m1 = "snd (update_field ?m (ascii ''u1'') NOTES ?v None (ascii ''09:00''))"
  have new: "new_notes (str_strip ?v) = [ascii ''aaaaaaaaaaaaaaaaaaa '']"
    by (simp add: new_notes_def str_strip_def isspace_def note_delim_def ascii_def)
  have n0: "stored_notes ?m (ascii ''u1'') None = []"
    by (simp add: stored_notes_def get_user_profile_def)
  have s1: "map_of (get_user_profile ?m1 (ascii ''u1'') None) NOTES
      = Some (ascii ''aaaaaaaaaaaaaaaaaaa '')"
    by (simp add: notes_after_update_snd new n0 slice_from_def)
  have strip: "str_strip (ascii ''aaaaaaaaaaaaaaaaaaa '') = ascii ''aaaaaaaaaaaaaaaaaaa''"
    by (simp add: str_strip_def isspace_def ascii_def)
  have "re_split note_delim (ascii ''aaaaaaaaaaaaaaaaaaa '') = [ascii ''aaaaaaaaaaaaaaaaaaa '']"
    by (simp add: note_delim_def ascii_def)
  then have n1: "stored_notes ?m1 (ascii ''u1'') None = [ascii ''aaaaaaaaaaaaaaaaaaa'']"
    by (simp add: stored_notes_def s1 split_notes_def strip) (simp add: ascii_def)
  have a1: "NOTES \<in> set (allowed_fields ?m1)" "max_notes_count ?m1 = 5"
    by (simp_all add: notes_after_update_snd)
  have differ: "ascii ''aaaaaaaaaaaaaaaaaaa '' \<noteq> ascii ''aaaaaaaaaaaaaaaaaaa''"
    by (simp add: ascii_def)
  have s2: "map_of (get_user_profile
      (snd (update_field ?m1 (ascii ''u1'') NOTES ?v None (ascii ''09:01'')))
      (ascii ''u1'') None) NOTES
      = Some (ascii ''aaaaaaaaaaaaaaaaaaa'' @ NOTE_SEP @ ascii ''aaaaaaaaaaaaaaaaaaa '')"
    unfolding notes_after_update_snd(1) [OF a1(1)] a1(2) new n1
    using differ by (simp add: slice_from_def)
  have pieces: "re_split note_delim
      (ascii ''aaaaaaaaaaaaaaaaaaa'' @ NOTE_SEP @ ascii ''aaaaaaaaaaaaaaaaaaa '')
      = [ascii ''aaaaaaaaaaaaaaaaaaa'', ascii ''aaaaaaaaaaaaaaaaaaa '']"
    by (simp add: note_delim_def ascii_def NOTE_SEP_def)
  show ?thesis using s2 pieces strip by simp
qed

text \<open>
  With \<open>max_notes_count = 0\<close> the slice \<open>notes[-0:]\<close> is the whole list: nothing is
  evicted, and three entries are stored under a cap of zero.
\<close>

theorem update_notes_cap_zero:
  "map_of (get_user_profile
      (snd (update_field
         \<lparr>allowed_fields = [NOTES], max_notes_count = 0, user_data = [], saved = None\<rparr>
         (ascii ''u1'') NOTES (ascii ''x;y;z'') None (ascii ''09:00'')))
      (ascii ''u1'') None) NOTES
   = Some (ascii ''x'' @ NOTE_SEP @ ascii ''y'' @ NOTE_SEP @ ascii ''z'')"
proof -
  let ?m = "\<lparr>allowed_fields = [NOTES], max_notes_count = 0, user_data = [], saved = None\<rparr>"
  have new: "new_notes (str_strip (ascii ''x;y;z'')) = [ascii ''x'', ascii ''y'', ascii ''z'']"
    by (simp add: new_notes_def str_strip_def isspace_def note_delim_def ascii_def)
  have n0: "stored_notes ?m (ascii ''u1'') None = []"
    by (simp add: stored_notes_def get_user_profile_def)
  show ?thesis
    by (simp add: notes_after_update_snd new n0 slice_from_def) (simp add: ascii_def)
qed


section \<open>The store stays writable under \<open>delete_field\<close>\<close>

text \<open>
  \<open>delete_field\<close> puts no character into the store that was not there, apart from the
  time stamp and the separator of the notes: a store that can be written can still be
  written after the call.
\<close>

lemma encodable_subset: "set a \<subseteq> set b \<Longrightarrow> encodable b \<Longrightarrow> encodable a"
  by (auto simp: encodable_def list_all_iff)

lemma encodable_join:
  "encodable sep \<Longrightarrow> list_all encodable ns \<Longrightarrow> encodable (join sep ns)"
  by (induction sep ns rule: join.induct) (simp_all add: encodable_def)

lemma encodable_constants: "encodable NOTES" "encodable LAST_UPDATED" "encodable NOTE_SEP"
  by (simp_all add: encodable_def is_surrogate_def NOTES_def LAST_UPDATED_def NOTE_SEP_def
        ascii_def)

lemma re_split_chars: "w \<in> set (re_split d s) \<Longrightarrow> set w \<subseteq> set s"
proof (induction s arbitrary: w)
  case Nil
  then show ?case by simp
next
  case (Cons a s)
  obtain v vs where vs: "re_split d s = v # vs"
    using re_split_nonempty [of d s] by (cases "re_split d s") auto
  show ?case
  proof (cases "d a")
    case True
    with Cons.prems have "w = [] \<or> w \<in> set (re_split d s)" by (simp add: Let_def)
    with Cons.IH show ?thesis by auto
  next
    case False
    with Cons.prems vs have "w = a # v \<or> w \<in> set vs" by (simp add: Let_def)
    with Cons.IH [of v] Cons.IH [of w] vs show ?thesis by auto
  qed
qed

lemma split_notes_chars: "e \<in> set (split_notes s) \<Longrightarrow> set e \<subseteq> set s"
  using set_str_strip re_split_chars by (fastforce simp: split_notes_def)

lemma split_notes_encodable: "encodable s \<Longrightarrow> list_all encodable (split_notes s)"
  unfolding list_all_iff
proof
  fix e assume "encodable s" and "e \<in> set (split_notes s)"
  then show "encodable e"
    using split_notes_chars [of e s] encodable_subset [of e s] by simp
qed

lemma profile_encodable_update:
  "profile_encodable p \<Longrightarrow> encodable f \<Longrightarrow> encodable v
     \<Longrightarrow> profile_encodable (AList.update f v p)"
  by (induction p) (auto simp: profile_encodable_def)

lemma profile_encodable_delete: "profile_encodable p \<Longrightarrow> profile_encodable (AList.delete f p)"
  by (induction p) (auto simp: profile_encodable_def)

lemma profile_encodable_lookup:
  "profile_encodable p \<Longrightarrow> map_of p f = Some v \<Longrightarrow> encodable v"
  by (induction p) (auto simp: profile_encodable_def split: if_splits)

lemma store_encodable_lookup:
  "store_encodable st \<Longrightarrow> map_of st k = Some p \<Longrightarrow> encodable k \<and> profile_encodable p"
  by (induction st) (auto simp: store_encodable_def split: if_splits)

lemma store_encodable_update:
  "store_encodable st \<Longrightarrow> encodable k \<Longrightarrow> profile_encodable p
     \<Longrightarrow> store_encodable (AList.update k p st)"
  by (induction st) (auto simp: store_encodable_def)

lemma profile_encodable_store_notes:
  "profile_encodable p \<Longrightarrow> list_all encodable ns \<Longrightarrow> profile_encodable (store_notes ns p)"
  by (simp add: store_notes_def profile_encodable_update profile_encodable_delete
        encodable_join encodable_constants)

lemma commit_encodable:
  assumes "store_encodable (user_data m)" and "map_of (user_data m) key = Some p0"
    and "profile_encodable p" and "encodable now"
  shows "store_encodable (user_data (commit m key p now))"
  unfolding user_data_commit
  using assms store_encodable_lookup [OF assms(1,2)]
  by (intro store_encodable_update profile_encodable_update) (simp_all add: encodable_constants)

lemma delete_field_encodable:
  assumes enc: "store_encodable (user_data m)" and now: "encodable now"
  shows "store_encodable (user_data (snd (delete_field m uid t sid now)))"
proof (cases "map_of (user_data m) (get_user_key uid sid)")
  case None
  then show ?thesis using enc by (simp add: delete_field_def)
next
  case (Some p)
  have p: "profile_encodable p"
    using store_encodable_lookup [OF enc Some] by simp
  have c: "store_encodable (user_data (commit m (get_user_key uid sid) q now))"
    if "profile_encodable q" for q
    using enc Some that now by (rule commit_encodable)
  have entries: "list_all encodable (split_notes stored)"
    if "map_of p NOTES = Some stored" for stored
    using profile_encodable_lookup [OF p that] by (rule split_notes_encodable)
  have sub: "list_all encodable ns"
    if "map_of p NOTES = Some stored" and "set ns \<subseteq> set (split_notes stored)" for stored ns
    using entries [OF that(1)] that(2) by (auto simp: list_all_iff)
  show ?thesis
    using enc Some p
    by (auto simp: delete_field_def Let_def save_and_return_stamp
          intro!: c profile_encodable_delete profile_encodable_store_notes sub [OF _ set_pop_at]
            sub [OF _ filter_is_subset]
          split: option.splits sum.splits)
qed

text \<open>
  With a store that can be written, what \<open>delete_field\<close> returns is what it returned
  were the write left out of account: the only exception left is the one of \<open>int\<close>.
\<close>

lemma save_and_return_encodable:
  assumes "store_encodable (user_data m)" and "map_of (user_data m) key = Some p0"
    and "profile_encodable p" and "encodable now"
  shows "save_and_return (stamp_profile m key p now) r = (Inr r, commit m key p now)"
  using commit_encodable [OF assms] by (simp add: save_and_return_stamp)

section \<open>Properties of the delete blocks\<close>

lemma int_keys_Inr:
  "int_keys fs = Inr ks \<Longrightarrow> map snd ks = fs \<and> (\<forall>kf\<in>set ks. py_int (snd kf) = Inr (fst kf))"
  by (induction fs arbitrary: ks) (auto split: sum.splits)

lemma sorted_by_int_desc_Inr:
  assumes "sorted_by_int_desc fs = Inr ds"
  shows "\<exists>ks. mset ds = mset fs \<and> map py_int ds = map Inr ks \<and> sorted_wrt (\<lambda>a b. a \<ge> b) ks \<and>
           (\<forall>k. filter (\<lambda>d. py_int d = Inr k) ds = filter (\<lambda>d. py_int d = Inr k) fs)"
proof -
  from assms obtain kfs where kfs: "int_keys fs = Inr kfs"
      and ds: "ds = map snd (sort_key (\<lambda>kf. - fst kf) kfs)"
    by (auto simp: sorted_by_int_desc_def split: sum.splits)
  let ?L = "sort_key (\<lambda>kf. - fst kf) kfs"
  have "mset ds = image_mset snd (mset kfs)"
    by (simp add: ds)
  also have "\<dots> = mset (map snd kfs)" by simp
  finally have perm: "mset ds = mset fs" using int_keys_Inr [OF kfs] by simp
  have "\<forall>kf\<in>set ?L. py_int (snd kf) = Inr (fst kf)"
    using int_keys_Inr [OF kfs] by simp
  then have ints: "map py_int ds = map Inr (map fst ?L)"
    by (simp add: ds)
  have "sorted (map (\<lambda>kf. - fst kf) ?L)" by (rule sorted_sort_key)
  then have desc: "sorted_wrt (\<lambda>a b. a \<ge> b) (map fst ?L)"
    by (simp add: sorted_map sorted_wrt_map)
  have stable: "filter (\<lambda>d. py_int d = Inr k) ds = filter (\<lambda>d. py_int d = Inr k) fs" for k
  proof -
    have "filter (\<lambda>d. py_int d = Inr k) ds
        = map snd (filter (\<lambda>kf. py_int (snd kf) = Inr k) ?L)"
      by (simp add: ds filter_map comp_def)
    also have "filter (\<lambda>kf. py_int (snd kf) = Inr k) ?L = filter (\<lambda>kf. - fst kf = - k) ?L"
      using int_keys_Inr [OF kfs] by (intro filter_cong) auto
    also have "\<dots> = filter (\<lambda>kf. - fst kf = - k) kfs"
      by (rule sort_key_stable)
    also have "\<dots> = filter (\<lambda>kf. py_int (snd kf) = Inr k) kfs"
      using int_keys_Inr [OF kfs] by (intro filter_cong) auto
    also have "map snd \<dots> = filter (\<lambda>d. py_int d = Inr k) (map snd kfs)"
      by (simp add: filter_map comp_def)
    finally show ?thesis using int_keys_Inr [OF kfs] by simp
  qed
  from perm ints desc stable show ?thesis by blast
qed

lemma delete_loop_append:
  "delete_loop m uid (xs @ ys) sid clock =
     (case delete_loop m uid xs sid clock of
        (Inl e, m1) \<Rightarrow> (Inl e, m1)
      | (Inr rs, m1) \<Rightarrow>
          (case delete_loop m1 uid ys sid (\<lambda>i. clock (length xs + i)) of
             (Inl e, m2) \<Rightarrow> (Inl e, m2)
           | (Inr rs', m2) \<Rightarrow> (Inr (rs @ rs'), m2)))"
  by (induction xs arbitrary: m clock) (auto split: prod.splits sum.splits)

lemma delete_field_not_digit_returns:
  assumes "store_encodable (user_data m)" and "encodable now" and "\<not> isdigit t"
  shows "\<exists>r m'. delete_field m uid t sid now = (Inr r, m') \<and> store_encodable (user_data m')"
proof -
  obtain x m' where d: "delete_field m uid t sid now = (x, m')"
    by (cases "delete_field m uid t sid now")
  have enc': "store_encodable (user_data m')"
    using delete_field_encodable [OF assms(1,2), of uid t sid] by (simp add: d)
  have "\<exists>r. x = Inr r"
    using d enc' assms(3)
    by (auto simp: delete_field_def Let_def save_and_return_stamp
          split: option.splits if_splits)
  with d enc' show ?thesis by auto
qed

lemma delete_loop_others_returns:
  assumes "store_encodable (user_data m)" and "\<forall>i. encodable (clock i)"
    and "\<forall>t\<in>set ts. \<not> isdigit t"
  shows "\<exists>rs m'. delete_loop m uid ts sid clock = (Inr rs, m') \<and> store_encodable (user_data m')"
  using assms
proof (induction ts arbitrary: m clock)
  case Nil
  then show ?case by simp
next
  case (Cons t ts)
  obtain r m1 where a: "delete_field m uid t sid (clock 0) = (Inr r, m1)"
      and enc1: "store_encodable (user_data m1)"
    using delete_field_not_digit_returns [of m "clock 0" t uid sid] Cons.prems by auto
  have "\<forall>i. encodable (clock (Suc i))" using Cons.prems(2) by simp
  then obtain rs m2 where b: "delete_loop m1 uid ts sid (\<lambda>i. clock (Suc i)) = (Inr rs, m2)"
      and enc2: "store_encodable (user_data m2)"
    using Cons.IH [OF enc1, of "\<lambda>i. clock (Suc i)"] Cons.prems(3) by auto
  show ?case by (simp add: a b enc2)
qed

lemma nth_pop_at_before: "j < i \<Longrightarrow> i < length xs \<Longrightarrow> pop_at i xs ! j = xs ! j"
  by (simp add: pop_at_def nth_append)

lemma nths_cong_below:
  "(\<And>i. i < length xs \<Longrightarrow> i \<in> A \<longleftrightarrow> i \<in> B) \<Longrightarrow> nths xs A = nths xs B"
  unfolding nths_def
  by (rule arg_cong [where f = "map fst"], rule filter_cong) (auto simp: set_zip)

lemma nths_pop_at:
  assumes "j < length xs" and "\<forall>i\<ge>j. i \<in> B"
  shows "nths (pop_at j xs) B = nths xs (B - {j})"
proof -
  have xs: "xs = take j xs @ xs ! j # drop (Suc j) xs"
    using assms(1) by (rule id_take_nth_drop)
  have len: "length (take j xs) = j" using assms(1) by simp
  have a: "nths (take j xs) (B - {j}) = nths (take j xs) B"
    by (rule nths_cong_below) (simp add: len)
  have b: "nths (drop (Suc j) xs) {i. i + j \<in> B} = drop (Suc j) xs"
    using assms(2) by (intro nths_all) simp
  have jB: "j \<in> B" using assms(2) by simp
  have c: "nths (drop (Suc j) xs) {i. Suc i \<in> {i. i + j \<in> B - {j}}} = drop (Suc j) xs"
    using assms(2) by (intro nths_all) simp
  have "nths xs (B - {j}) = nths (take j xs @ xs ! j # drop (Suc j) xs) (B - {j})"
    using xs by simp
  also have "\<dots> = nths (take j xs) B @ drop (Suc j) xs"
    unfolding nths_append nths_Cons len a c by simp
  also have "\<dots> = nths (pop_at j xs) B"
    unfolding pop_at_def nths_append len b by simp
  finally show ?thesis by simp
qed

lemma strict_desc:
  "sorted_wrt (\<lambda>a b. a \<ge> b) (ks :: int list) \<Longrightarrow> distinct ks \<Longrightarrow> sorted_wrt (\<lambda>a b. a > b) ks"
  by (induction ks) (auto simp: less_le)

lemma stored_notes_after_commit:
  assumes "list_all note_ok ns"
  shows "stored_notes (commit m (get_user_key uid sid) (store_notes ns p) now) uid sid = ns"
proof (cases "ns = []")
  case True
  then show ?thesis
    using NOTES_neq_LAST_UPDATED
    by (simp add: stored_notes_def profile_after_commit update_conv' map_of_store_notes)
next
  case False
  then show ?thesis
    using NOTES_neq_LAST_UPDATED assms
    by (simp add: stored_notes_def profile_after_commit update_conv' map_of_store_notes
          split_notes_join)
qed

lemma numeric_phase:
  assumes "map_of (user_data m) (get_user_key uid sid) = Some p"
    and "map_of p NOTES = Some stored"
    and "map py_int ds = map Inr ks"
    and "\<forall>d\<in>set ds. isdigit d \<and> map_of p d = None"
    and "sorted_wrt (\<lambda>a b. a > b) ks"
    and "\<forall>k\<in>set ks. 1 \<le> k \<and> k \<le> int (length (split_notes stored))"
    and "store_encodable (user_data m)" and "\<forall>i. encodable (clock i)"
  shows "\<exists>m'. delete_loop m uid ds sid clock =
           (Inr (map2 (\<lambda>d k. (True, DeletedNoteMsg d (split_notes stored ! nat (k - 1)))) ds ks),
            m') \<and>
          stored_notes m' uid sid = nths (split_notes stored) {i. int i + 1 \<notin> set ks}"
  using assms
proof (induction ds arbitrary: m p stored ks clock)
  case Nil
  then have "ks = []" by simp
  moreover have "stored_notes m uid sid = split_notes stored"
    using Nil.prems(1,2) by (simp add: stored_notes_def get_user_profile_def)
  ultimately show ?case by (simp add: nths_all)
next
  case (Cons d ds)
  let ?notes = "split_notes stored"
  from Cons.prems(3) obtain k ks' where ks: "ks = k # ks'" and dk: "py_int d = Inr k"
      and ints': "map py_int ds = map Inr ks'"
    by (cases ks) auto
  have k1: "1 \<le> k" and kle: "k \<le> int (length ?notes)"
    using Cons.prems(6) ks by auto
  let ?j = "nat (k - 1)"
  have j: "?j < length ?notes" using k1 kle by simp
  let ?notes' = "pop_at ?j ?notes"
  let ?now = "clock 0"
  let ?m1 = "commit m (get_user_key uid sid) (store_notes ?notes' p) ?now"
  let ?p1 = "AList.update LAST_UPDATED ?now (store_notes ?notes' p)"
  have raw: "delete_field m uid d sid ?now
      = save_and_return (stamp_profile m (get_user_key uid sid) (store_notes ?notes' p) ?now)
          (True, DeletedNoteMsg d (?notes ! ?j))"
    using Cons.prems(1,2,4) dk k1 kle by (intro delete_field_index) auto
  have now: "encodable ?now" using Cons.prems(8) by simp
  have enc1: "store_encodable (user_data ?m1)"
    using delete_field_encodable [OF Cons.prems(7) now, of uid d sid]
    by (simp add: raw save_and_return_stamp)
  have step: "delete_field m uid d sid ?now
      = (Inr (True, DeletedNoteMsg d (?notes ! ?j)), ?m1)"
    by (simp add: raw save_and_return_stamp enc1)
  have clock1: "\<forall>i. encodable (clock (Suc i))" using Cons.prems(8) by simp
  have ok: "list_all note_ok ?notes'"
    using set_pop_at [of ?j ?notes] split_notes_ok [of _ stored] by (auto simp: list_all_iff)
  have sn1: "stored_notes ?m1 uid sid = ?notes'"
    using ok by (rule stored_notes_after_commit)
  have idx: "{i. int i + 1 \<noteq> k} = UNIV - {?j}"
    using k1 by auto
  show ?case
  proof (cases "ds = []")
    case True
    then have ks': "ks' = []" using ints' by simp
    have "nths ?notes (UNIV - {?j}) = nths ?notes' UNIV"
      using nths_pop_at [OF j, of UNIV] by simp
    then have "stored_notes ?m1 uid sid = nths ?notes {i. int i + 1 \<notin> set ks}"
      by (simp add: sn1 ks ks' idx nths_all)
    then show ?thesis
      using True by (simp add: step ks ks')
  next
    case False
    then obtain k0 where k0: "k0 \<in> set ks'"
      using ints' by (cases ks') auto
    have below: "1 \<le> k' \<and> k' < k" if "k' \<in> set ks'" for k'
      using that Cons.prems(5,6) ks by auto
    have len': "length ?notes' = length ?notes - 1" using j by (rule length_pop_at)
    have ne: "?notes' \<noteq> []"
      using below [OF k0] kle len' by auto
    have key1: "map_of (user_data ?m1) (get_user_key uid sid) = Some ?p1"
      by (rule user_data_after_commit)
    have stored1: "map_of ?p1 NOTES = Some (join NOTE_SEP ?notes')"
      using ne NOTES_neq_LAST_UPDATED by (simp add: update_conv' map_of_store_notes)
    have split1: "split_notes (join NOTE_SEP ?notes') = ?notes'"
      using ok by (rule split_notes_join)
    have fields1: "\<forall>d\<in>set ds. isdigit d \<and> map_of ?p1 d = None"
    proof
      fix d' assume d': "d' \<in> set ds"
      then have dig: "isdigit d'" and none: "map_of p d' = None"
        using Cons.prems(4) by auto
      have "d' \<noteq> NOTES" "d' \<noteq> LAST_UPDATED" using isdigit_not_special [OF dig] by auto
      then show "isdigit d' \<and> map_of ?p1 d' = None"
        using dig none by (simp add: update_conv' map_of_store_notes)
    qed
    have desc1: "sorted_wrt (\<lambda>a b. a > b) ks'" using Cons.prems(5) ks by simp
    have range1: "\<forall>k'\<in>set ks'. 1 \<le> k' \<and> k' \<le> int (length (split_notes (join NOTE_SEP ?notes')))"
      using below kle len' by (fastforce simp: split1)
    obtain m' where
      loop: "delete_loop ?m1 uid ds sid (\<lambda>i. clock (Suc i)) =
          (Inr (map2 (\<lambda>d k. (True, DeletedNoteMsg d
                  (split_notes (join NOTE_SEP ?notes') ! nat (k - 1)))) ds ks'), m')"
      and fin: "stored_notes m' uid sid
          = nths (split_notes (join NOTE_SEP ?notes')) {i. int i + 1 \<notin> set ks'}"
      using Cons.IH [OF key1 stored1 ints' fields1 desc1 range1 enc1 clock1] by blast
    have same: "map2 (\<lambda>d k. (True, DeletedNoteMsg d
                  (split_notes (join NOTE_SEP ?notes') ! nat (k - 1)))) ds ks'
        = map2 (\<lambda>d k. (True, DeletedNoteMsg d (?notes ! nat (k - 1)))) ds ks'"
    proof (rule map_cong [OF refl])
      fix x assume "x \<in> set (zip ds ks')"
      then have "snd x \<in> set ks'"
        using set_zip_rightD [of "fst x" "snd x" ds ks'] by simp
      then have "nat (snd x - 1) < ?j" using below by fastforce
      then have "?notes' ! nat (snd x - 1) = ?notes ! nat (snd x - 1)"
        using j by (rule nth_pop_at_before)
      then show "(case x of (d, k) \<Rightarrow> (True, DeletedNoteMsg d
                  (split_notes (join NOTE_SEP ?notes') ! nat (k - 1))))
          = (case x of (d, k) \<Rightarrow> (True, DeletedNoteMsg d (?notes ! nat (k - 1))))"
        by (cases x) (simp add: split1)
    qed
    have all_above: "\<forall>i\<ge>?j. i \<in> {i. int i + 1 \<notin> set ks'}"
      using below by fastforce
    have "nths ?notes' {i. int i + 1 \<notin> set ks'}
        = nths ?notes ({i. int i + 1 \<notin> set ks'} - {?j})"
      using j all_above by (rule nths_pop_at)
    also have "{i. int i + 1 \<notin> set ks'} - {?j} = {i. int i + 1 \<notin> set ks}"
      using k1 by (auto simp: ks)
    finally have fin': "stored_notes m' uid sid = nths ?notes {i. int i + 1 \<notin> set ks}"
      by (simp add: fin split1)
    show ?thesis
      using fin' by (simp add: step loop same ks)
  qed
qed

text \<open>
  C2, amended. In one delete block the targets that are not digit strings are applied
  first, in the order of the block, and the digit strings after them from the largest
  value to the smallest, those of equal value in the order of the block (\<open>int\<close> reading
  every digit string; otherwise the block raises before any target is applied).
  Take a store that can be written: no key or value holds a surrogate code point, and
  no time stamp does, so that no write raises. Then the first phase returns; and when
  the numeric values are distinct positions of the notes list as the first phase left
  it, and no digit string is itself a field name of the profile, every numeric target
  removes the entry that stood at its position when the numeric phase began: no removal
  shifts the position of a target still to come, and the notes that remain are those at
  the positions no target names.
\<close>

theorem delete_block_order:
  assumes "delete_order (split_targets body) = Inr order"
  shows "\<exists>digits ks.
      order = filter (\<lambda>f. \<not> isdigit f) (split_targets body) @ digits \<and>
      mset digits = mset (filter isdigit (split_targets body)) \<and>
      map py_int digits = map Inr ks \<and> sorted_wrt (\<lambda>a b. a \<ge> b) ks \<and>
      (\<forall>k. filter (\<lambda>d. py_int d = Inr k) digits
             = filter (\<lambda>d. py_int d = Inr k) (filter isdigit (split_targets body))) \<and>
      (store_encodable (user_data m) \<and> (\<forall>i. encodable (clock i)) \<longrightarrow>
        (\<exists>rs m1.
          delete_loop m uid (filter (\<lambda>f. \<not> isdigit f) (split_targets body)) sid clock
            = (Inr rs, m1) \<and>
          (\<forall>p stored.
              map_of (user_data m1) (get_user_key uid sid) = Some p \<and>
              map_of p NOTES = Some stored \<and> (\<forall>d\<in>set digits. map_of p d = None) \<and>
              distinct ks \<and> (\<forall>k\<in>set ks. 1 \<le> k \<and> k \<le> int (length (split_notes stored)))
            \<longrightarrow> (\<exists>m'. process_delete_block m uid body sid clock =
                        (Inr (rs @ map2 (\<lambda>d k. (True,
                                DeletedNoteMsg d (split_notes stored ! nat (k - 1)))) digits ks),
                         m') \<and>
                      stored_notes m' uid sid
                        = nths (split_notes stored) {i. int i + 1 \<notin> set ks}))))"
proof -
  let ?others = "filter (\<lambda>f. \<not> isdigit f) (split_targets body)"
  from assms obtain digits where
    sorted: "sorted_by_int_desc (filter isdigit (split_targets body)) = Inr digits"
    and order: "order = ?others @ digits"
    by (auto simp: delete_order_def split: sum.splits)
  from sorted_by_int_desc_Inr [OF sorted] obtain ks where
    perm: "mset digits = mset (filter isdigit (split_targets body))"
    and ints: "map py_int digits = map Inr ks"
    and desc: "sorted_wrt (\<lambda>a b. a \<ge> b) ks"
    and stable: "\<forall>k. filter (\<lambda>d. py_int d = Inr k) digits
                     = filter (\<lambda>d. py_int d = Inr k) (filter isdigit (split_targets body))"
    by blast
  have digs: "\<forall>d\<in>set digits. isdigit d"
    using perm mset_eq_setD by fastforce
  have block: "process_delete_block m uid body sid clock
      = delete_loop m uid (?others @ digits) sid clock"
    using assms order by (simp add: process_delete_block_def)
  have phases: "\<exists>rs m1.
      delete_loop m uid ?others sid clock = (Inr rs, m1) \<and>
      (\<forall>p stored.
          map_of (user_data m1) (get_user_key uid sid) = Some p \<and>
          map_of p NOTES = Some stored \<and> (\<forall>d\<in>set digits. map_of p d = None) \<and>
          distinct ks \<and> (\<forall>k\<in>set ks. 1 \<le> k \<and> k \<le> int (length (split_notes stored)))
        \<longrightarrow> (\<exists>m'. process_delete_block m uid body sid clock =
                    (Inr (rs @ map2 (\<lambda>d k. (True,
                            DeletedNoteMsg d (split_notes stored ! nat (k - 1)))) digits ks),
                     m') \<and>
                  stored_notes m' uid sid
                    = nths (split_notes stored) {i. int i + 1 \<notin> set ks}))"
    if enc: "store_encodable (user_data m)" and clk: "\<forall>i. encodable (clock i)"
  proof -
    obtain rs m1 where others: "delete_loop m uid ?others sid clock = (Inr rs, m1)"
        and enc1: "store_encodable (user_data m1)"
      using delete_loop_others_returns [OF enc clk, of ?others uid sid] by auto
    have clk1: "\<forall>i. encodable (clock (length ?others + i))" using clk by simp
    have "\<exists>m'. process_delete_block m uid body sid clock =
            (Inr (rs @ map2 (\<lambda>d k. (True,
                    DeletedNoteMsg d (split_notes stored ! nat (k - 1)))) digits ks), m') \<and>
          stored_notes m' uid sid = nths (split_notes stored) {i. int i + 1 \<notin> set ks}"
      if h: "map_of (user_data m1) (get_user_key uid sid) = Some p \<and>
            map_of p NOTES = Some stored \<and> (\<forall>d\<in>set digits. map_of p d = None) \<and>
            distinct ks \<and> (\<forall>k\<in>set ks. 1 \<le> k \<and> k \<le> int (length (split_notes stored)))"
      for p stored
    proof -
      have strict: "sorted_wrt (\<lambda>a b. a > b) ks"
        using desc h by (intro strict_desc) auto
      have fields: "\<forall>d\<in>set digits. isdigit d \<and> map_of p d = None"
        using digs h by auto
      have key: "map_of (user_data m1) (get_user_key uid sid) = Some p"
        and st: "map_of p NOTES = Some stored"
        and range: "\<forall>k\<in>set ks. 1 \<le> k \<and> k \<le> int (length (split_notes stored))"
        using h by auto
      obtain m' where
        "delete_loop m1 uid digits sid (\<lambda>i. clock (length ?others + i)) =
           (Inr (map2 (\<lambda>d k. (True,
                   DeletedNoteMsg d (split_notes stored ! nat (k - 1)))) digits ks), m')"
        and "stored_notes m' uid sid = nths (split_notes stored) {i. int i + 1 \<notin> set ks}"
        using numeric_phase [OF key st ints fields strict range enc1 clk1] by blast
      then show ?thesis
        by (simp add: block delete_loop_append others)
    qed
    with others show ?thesis by blast
  qed
  from order perm ints desc stable phases show ?thesis by blast
qed

lemma digit_strings:
  "isdigit (ascii ''1'')" "isdigit (ascii ''2'')" "isdigit (ascii ''3'')"
  "\<not> isdigit (ascii ''a'')" "\<not> isdigit (ascii ''nick'')"
  "py_int (ascii ''1'') = Inr 1" "py_int (ascii ''2'') = Inr 2" "py_int (ascii ''3'') = Inr 3"
  by (simp_all add: isdigit_def isdigit_char_def py_int_def int_max_str_digits_def ascii_def
        decimal_value_def decimal_zeros_def other_digits_def)

lemma example_targets:
  "split_targets (ascii ''2, nick, 1'') = [ascii ''2'', ascii ''nick'', ascii ''1'']"
  "split_targets (ascii ''3, a'') = [ascii ''3'', ascii ''a'']"
  by (simp_all add: split_targets_def target_delim_def str_strip_def isspace_def ascii_def)

lemma example_orders:
  "delete_order (split_targets (ascii ''2, nick, 1''))
     = Inr [ascii ''nick'', ascii ''2'', ascii ''1'']"
  "delete_order (split_targets (ascii ''3, a'')) = Inr [ascii ''a'', ascii ''3'']"
  by (simp_all add: example_targets delete_order_def sorted_by_int_desc_def digit_strings)

lemma example_notes: "split_notes (ascii ''a;b;c'') = [ascii ''a'', ascii ''b'', ascii ''c'']"
  by (simp add: split_notes_def str_strip_def isspace_def note_delim_def ascii_def)


text \<open>
  C2, as it is stated, fails: the numeric targets are not applied before the others.
  The block \<open>2, nick, 1\<close> is applied in the order \<open>nick, 2, 1\<close>; and for the notes
  \<open>a;b;c\<close> the block \<open>3, a\<close> first removes the entry that contains \<open>a\<close>, which
  shifts the third entry to position 2, so that the target 3 finds no entry.
\<close>

theorem delete_block_order_counterexample:
  "delete_order (split_targets (ascii ''2, nick, 1''))
     = Inr [ascii ''nick'', ascii ''2'', ascii ''1''] \<and>
   fst (process_delete_block
      \<lparr>allowed_fields = [ascii ''nick'', NOTES], max_notes_count = 5,
       user_data = [(ascii ''u1'', [(ascii ''nick'', ascii ''Ann''), (NOTES, ascii ''a;b;c'')])],
       saved = None\<rparr>
      (ascii ''u1'') (ascii ''3, a'') None (\<lambda>i. ascii ''09:00''))
     = Inr [(True, DeletedMatchingMsg (ascii ''a'')), (False, NoSuchNoteMsg (ascii ''3''))] \<and>
   stored_notes (snd (process_delete_block
      \<lparr>allowed_fields = [ascii ''nick'', NOTES], max_notes_count = 5,
       user_data = [(ascii ''u1'', [(ascii ''nick'', ascii ''Ann''), (NOTES, ascii ''a;b;c'')])],
       saved = None\<rparr>
      (ascii ''u1'') (ascii ''3, a'') None (\<lambda>i. ascii ''09:00''))) (ascii ''u1'') None
     = [ascii ''b'', ascii ''c'']"
proof -
  let ?p = "[(ascii ''nick'', ascii ''Ann''), (NOTES, ascii ''a;b;c'')]"
  let ?m = "\<lparr>allowed_fields = [ascii ''nick'', NOTES], max_notes_count = 5,
       user_data = [(ascii ''u1'', ?p)], saved = None\<rparr>"
  let ?t = "ascii ''09:00''"
  let ?m1 = "commit ?m (get_user_key (ascii ''u1'') None)
      (store_notes [ascii ''b'', ascii ''c''] ?p) ?t"
  have names: "ascii ''nick'' \<noteq> NOTES" "ascii ''a'' \<noteq> NOTES" "ascii ''a'' \<noteq> ascii ''nick''"
      "ascii ''3'' \<noteq> NOTES" "ascii ''3'' \<noteq> ascii ''nick''" "ascii ''3'' \<noteq> LAST_UPDATED"
    by (simp_all add: ascii_def NOTES_def LAST_UPDATED_def)
  have key: "map_of (user_data ?m) (get_user_key (ascii ''u1'') None) = Some ?p"
    by (simp add: get_user_key_def)
  have stored: "map_of ?p NOTES = Some (ascii ''a;b;c'')"
    using names by simp
  have left: "str_in (ascii ''a'') (ascii ''a'')" "\<not> str_in (ascii ''a'') (ascii ''b'')"
      "\<not> str_in (ascii ''a'') (ascii ''c'')"
    by (simp_all add: ascii_def)
  have enc: "store_encodable (user_data ?m)"
    by (simp add: store_encodable_def profile_encodable_def encodable_def is_surrogate_def
          ascii_def NOTES_def)
  have now: "encodable ?t"
    by (simp add: encodable_def is_surrogate_def ascii_def)
  have raw1: "delete_field ?m (ascii ''u1'') (ascii ''a'') None ?t
      = save_and_return
          (stamp_profile ?m (get_user_key (ascii ''u1'') None)
             (store_notes [ascii ''b'', ascii ''c''] ?p) ?t)
          (True, DeletedMatchingMsg (ascii ''a''))"
    using delete_field_substring [OF key _ stored, of "ascii ''a''" ?t] names
    by (simp add: example_notes left digit_strings)
  have enc1: "store_encodable (user_data ?m1)"
    using delete_field_encodable [OF enc now, of "ascii ''u1''" "ascii ''a''" None]
    by (simp add: raw1 save_and_return_stamp)
  have s1: "delete_field ?m (ascii ''u1'') (ascii ''a'') None ?t
      = (Inr (True, DeletedMatchingMsg (ascii ''a'')), ?m1)"
    by (simp add: raw1 save_and_return_stamp enc1)
  have ok: "list_all note_ok [ascii ''b'', ascii ''c'']"
    by (simp add: note_ok_def str_strip_def isspace_def note_delim_def ascii_def)
  have n1: "stored_notes ?m1 (ascii ''u1'') None = [ascii ''b'', ascii ''c'']"
    using ok by (rule stored_notes_after_commit)
  have key1: "map_of (user_data ?m1) (get_user_key (ascii ''u1'') None)
      = Some (AList.update LAST_UPDATED ?t (store_notes [ascii ''b'', ascii ''c''] ?p))"
    by (rule user_data_after_commit)
  have st1: "map_of (AList.update LAST_UPDATED ?t (store_notes [ascii ''b'', ascii ''c''] ?p)) NOTES
      = Some (join NOTE_SEP [ascii ''b'', ascii ''c''])"
    using NOTES_neq_LAST_UPDATED by (simp add: update_conv' map_of_store_notes)
  have no3: "map_of (AList.update LAST_UPDATED ?t (store_notes [ascii ''b'', ascii ''c''] ?p))
      (ascii ''3'') = None"
    using names by (simp add: update_conv' map_of_store_notes)
  have s2: "delete_field ?m1 (ascii ''u1'') (ascii ''3'') None ?t
      = (Inr (False, NoSuchNoteMsg (ascii ''3'')), ?m1)"
    unfolding delete_field_def Let_def key1
    by (simp add: no3 st1 digit_strings split_notes_join [OF ok] del: join.simps)
  have "process_delete_block ?m (ascii ''u1'') (ascii ''3, a'') None (\<lambda>i. ?t)
      = (Inr [(True, DeletedMatchingMsg (ascii ''a'')), (False, NoSuchNoteMsg (ascii ''3''))], ?m1)"
    by (simp add: process_delete_block_def example_orders s1 s2)
  then show ?thesis
    using n1 example_orders(1) by simp
qed

theorem delete_block_order_witness:
  "delete_order (split_targets (ascii ''2, nick, 1''))
     = Inr [ascii ''nick'', ascii ''2'', ascii ''1''] \<and>
   store_encodable [(ascii ''u1'', [(ascii ''nick'', ascii ''Ann''), (NOTES, ascii ''a;b;c'')])] \<and>
   encodable (ascii ''09:00'') \<and>
   (\<exists>m'. process_delete_block
       \<lparr>allowed_fields = [ascii ''nick'', NOTES], max_notes_count = 5,
        user_data = [(ascii ''u1'', [(ascii ''nick'', ascii ''Ann''), (NOTES, ascii ''a;b;c'')])],
        saved = None\<rparr>
       (ascii ''u1'') (ascii ''2, nick, 1'') None (\<lambda>i. ascii ''09:00'')
     = (Inr [(True, DeletedFieldMsg (ascii ''nick'')),
             (True, DeletedNoteMsg (ascii ''2'') (ascii ''b'')),
             (True, DeletedNoteMsg (ascii ''1'') (ascii ''a''))], m') \<and>
     stored_notes m' (ascii ''u1'') None = [ascii ''c''])"
proof -
  let ?p = "[(ascii ''nick'', ascii ''Ann''), (NOTES, ascii ''a;b;c'')]"
  let ?m = "\<lparr>allowed_fields = [ascii ''nick'', NOTES], max_notes_count = 5,
       user_data = [(ascii ''u1'', ?p)], saved = None\<rparr>"
  let ?t = "ascii ''09:00''"
  let ?m1 = "commit ?m (get_user_key (ascii ''u1'') None) (AList.delete (ascii ''nick'') ?p) ?t"
  let ?p1 = "AList.update LAST_UPDATED ?t (AList.delete (ascii ''nick'') ?p)"
  have names: "ascii ''nick'' \<noteq> NOTES" "ascii ''nick'' \<noteq> LAST_UPDATED"
      "ascii ''1'' \<noteq> NOTES" "ascii ''1'' \<noteq> LAST_UPDATED" "ascii ''1'' \<noteq> ascii ''nick''"
      "ascii ''2'' \<noteq> NOTES" "ascii ''2'' \<noteq> LAST_UPDATED" "ascii ''2'' \<noteq> ascii ''nick''"
    by (simp_all add: ascii_def NOTES_def LAST_UPDATED_def)
  have order: "delete_order (split_targets (ascii ''2, nick, 1''))
      = Inr [ascii ''nick'', ascii ''2'', ascii ''1'']"
    by (rule example_orders)
  have enc: "store_encodable (user_data ?m)"
    by (simp add: store_encodable_def profile_encodable_def encodable_def is_surrogate_def
          ascii_def NOTES_def)
  have now: "encodable ?t"
    by (simp add: encodable_def is_surrogate_def ascii_def)
  obtain digits ks where
    a: "[ascii ''nick'', ascii ''2'', ascii ''1'']
        = filter (\<lambda>f. \<not> isdigit f) (split_targets (ascii ''2, nick, 1'')) @ digits"
    and b: "map py_int digits = map Inr ks"
    and phases: "store_encodable (user_data ?m) \<and> (\<forall>i::nat. encodable ?t) \<longrightarrow>
      (\<exists>rs m1.
        delete_loop ?m (ascii ''u1'')
          (filter (\<lambda>f. \<not> isdigit f) (split_targets (ascii ''2, nick, 1''))) None (\<lambda>i. ?t)
          = (Inr rs, m1) \<and>
        (\<forall>p stored.
            map_of (user_data m1) (get_user_key (ascii ''u1'') None) = Some p \<and>
            map_of p NOTES = Some stored \<and> (\<forall>d\<in>set digits. map_of p d = None) \<and>
            distinct ks \<and> (\<forall>k\<in>set ks. 1 \<le> k \<and> k \<le> int (length (split_notes stored)))
          \<longrightarrow> (\<exists>m'. process_delete_block ?m (ascii ''u1'') (ascii ''2, nick, 1'') None
                        (\<lambda>i. ?t) =
                      (Inr (rs @ map2 (\<lambda>d k. (True,
                              DeletedNoteMsg d (split_notes stored ! nat (k - 1)))) digits ks),
                       m') \<and>
                    stored_notes m' (ascii ''u1'') None
                      = nths (split_notes stored) {i. int i + 1 \<notin> set ks})))"
    using delete_block_order [OF order, of ?m "\<lambda>i. ?t" "ascii ''u1''" None] by blast
  from phases enc now obtain rs m1 where
    c: "delete_loop ?m (ascii ''u1'')
        (filter (\<lambda>f. \<not> isdigit f) (split_targets (ascii ''2, nick, 1''))) None (\<lambda>i. ?t)
        = (Inr rs, m1)"
    and d: "\<And>p stored.
        map_of (user_data m1) (get_user_key (ascii ''u1'') None) = Some p \<and>
        map_of p NOTES = Some stored \<and> (\<forall>d\<in>set digits. map_of p d = None) \<and>
        distinct ks \<and> (\<forall>k\<in>set ks. 1 \<le> k \<and> k \<le> int (length (split_notes stored)))
        \<Longrightarrow> \<exists>m'. process_delete_block ?m (ascii ''u1'') (ascii ''2, nick, 1'') None (\<lambda>i. ?t) =
                  (Inr (rs @ map2 (\<lambda>d k. (True,
                          DeletedNoteMsg d (split_notes stored ! nat (k - 1)))) digits ks),
                   m') \<and>
                stored_notes m' (ascii ''u1'') None
                  = nths (split_notes stored) {i. int i + 1 \<notin> set ks}"
    by blast
  have others: "filter (\<lambda>f. \<not> isdigit f) (split_targets (ascii ''2, nick, 1''))
      = [ascii ''nick'']"
    by (simp add: example_targets digit_strings)
  have digits: "digits = [ascii ''2'', ascii ''1'']"
    using a by (simp add: others)
  have ks: "ks = [2, 1]"
    using b by (auto simp: digits digit_strings)
  have raw: "delete_field ?m (ascii ''u1'') (ascii ''nick'') None ?t
      = save_and_return
          (stamp_profile ?m (get_user_key (ascii ''u1'') None) (AList.delete (ascii ''nick'') ?p) ?t)
          (True, DeletedFieldMsg (ascii ''nick''))"
    using names by (simp add: delete_field_def get_user_key_def Let_def)
  have enc1: "store_encodable (user_data ?m1)"
    using delete_field_encodable [OF enc now, of "ascii ''u1''" "ascii ''nick''" None]
    unfolding raw save_and_return_stamp by simp
  have first: "delete_field ?m (ascii ''u1'') (ascii ''nick'') None ?t
      = (Inr (True, DeletedFieldMsg (ascii ''nick'')), ?m1)"
    unfolding raw save_and_return_stamp by (simp only: enc1 if_True)
  have rs: "rs = [(True, DeletedFieldMsg (ascii ''nick''))]" and m1: "m1 = ?m1"
    using c by (simp_all add: others first)
  have key1: "map_of (user_data m1) (get_user_key (ascii ''u1'') None) = Some ?p1"
    unfolding m1 by (rule user_data_after_commit)
  have conds: "map_of ?p1 NOTES = Some (ascii ''a;b;c'') \<and>
      (\<forall>d\<in>set digits. map_of ?p1 d = None) \<and> distinct ks \<and>
      (\<forall>k\<in>set ks. 1 \<le> k \<and> k \<le> int (length (split_notes (ascii ''a;b;c''))))"
    using names NOTES_neq_LAST_UPDATED
    by (simp add: digits ks update_conv' delete_conv' example_notes)
  have sel: "nths [ascii ''a'', ascii ''b'', ascii ''c''] {i. int i + 1 \<notin> set [2, 1]}
      = [ascii ''c'']"
    by (simp add: nths_Cons)
  obtain m' where
    r: "process_delete_block ?m (ascii ''u1'') (ascii ''2, nick, 1'') None (\<lambda>i. ?t) =
          (Inr (rs @ map2 (\<lambda>d k. (True,
                  DeletedNoteMsg d (split_notes (ascii ''a;b;c'') ! nat (k - 1)))) digits ks),
           m')"
    and f: "stored_notes m' (ascii ''u1'') None
          = nths (split_notes (ascii ''a;b;c'')) {i. int i + 1 \<notin> set ks}"
    using d [of ?p1 "ascii ''a;b;c''"] key1 conds by blast
  have r': "process_delete_block ?m (ascii ''u1'') (ascii ''2, nick, 1'') None (\<lambda>i. ?t) =
      (Inr [(True, DeletedFieldMsg (ascii ''nick'')),
            (True, DeletedNoteMsg (ascii ''2'') (ascii ''b'')),
            (True, DeletedNoteMsg (ascii ''1'') (ascii ''a''))], m')"
    using r by (simp add: rs digits ks example_notes)
  have f': "stored_notes m' (ascii ''u1'') None = [ascii ''c'']"
    using f unfolding ks example_notes sel .
  show ?thesis using order r' f' enc now by auto
qed

section \<open>Further properties of \<open>delete_field\<close> and of the notes merge\<close>

text \<open>
  Every call of \<open>delete_field\<close> that neither succeeds nor raises in the write leaves
  the manager as it was. It returns one of the three failure messages, unless \<open>int\<close>
  raised on a digit string it cannot read. An index out of range is reported as such,
  and the substring rule is not tried.
\<close>

lemma delete_field_failure_unchanged:
  assumes "delete_field m uid t sid now = (r, m')" and "\<forall>msg. r \<noteq> Inr (True, msg)"
    and "r \<noteq> Inl UnicodeEncodeError"
  shows "m' = m \<and>
         (r = Inr (False, NoProfileMsg) \<or> r = Inr (False, NoSuchNoteMsg t) \<or>
          r = Inr (False, NotFoundMsg t) \<or>
          (r = Inl ValueError \<and> isdigit t \<and> py_int t = Inl ValueError))"
  using assms
  by (auto simp: delete_field_def Let_def py_int_def save_and_return_stamp
        split: option.splits if_splits sum.splits)

lemma delete_field_out_of_range:
  assumes "map_of (user_data m) (get_user_key uid sid) = Some p"
    and "map_of p t = None" and "map_of p NOTES = Some stored"
    and "isdigit t" and "py_int t = Inr n"
    and "\<not> (1 \<le> n \<and> n \<le> int (length (split_notes stored)))"
  shows "delete_field m uid t sid now = (Inr (False, NoSuchNoteMsg t), m)"
  using assms by (auto simp: delete_field_def Let_def)

text \<open>
  What the notes keep under the cut to 20 characters: with a cap of at least 1, the
  parsed notes of the profile are never more than the cap, and no entry is empty or
  longer than 20 characters.
\<close>

lemma str_strip_head: "str_strip s \<noteq> [] \<Longrightarrow> \<not> isspace (hd (str_strip s))"
proof -
  assume ne: "str_strip s \<noteq> []"
  have "dropWhile isspace (str_strip s) = str_strip s"
    unfolding str_strip_def by (rule dropWhile_rev_dropWhile)
  then show ?thesis using ne by (metis hd_dropWhile)
qed

lemma new_notes_entry:
  assumes "e \<in> set (new_notes v)"
  shows "str_strip e \<noteq> [] \<and> list_all (\<lambda>c. \<not> note_delim c) e \<and> length e \<le> 20"
proof -
  from assms obtain n where n: "n \<in> set (re_split note_delim v)" "str_strip n \<noteq> []"
      "e = take 20 (str_strip n)"
    by (auto simp: new_notes_def)
  have "set e \<subseteq> set n"
    using set_str_strip [of n] n(3) by (auto dest: in_set_takeD)
  then have free: "list_all (\<lambda>c. \<not> note_delim c) e"
    using re_split_pieces [OF n(1)] by (auto simp: list_all_iff)
  have e: "e \<noteq> []" "hd e = hd (str_strip n)" using n by (simp_all add: hd_take)
  then have "\<not> isspace (hd e)" using str_strip_head [OF n(2)] by simp
  then have "hd e \<in> set e \<and> \<not> isspace (hd e)" using e(1) by simp
  then have a: "dropWhile isspace e = e" using e(1) by (cases e) auto
  have "\<exists>x\<in>set (rev e). \<not> isspace x" using \<open>hd e \<in> set e \<and> \<not> isspace (hd e)\<close> by auto
  then have "dropWhile isspace (rev e) \<noteq> []" by (simp add: dropWhile_eq_Nil_conv)
  then have "str_strip e \<noteq> []" by (simp add: str_strip_def a)
  then show ?thesis using free n(3) by simp
qed

lemma split_notes_join_strip:
  assumes "list_all (\<lambda>e. str_strip e \<noteq> [] \<and> list_all (\<lambda>c. \<not> note_delim c) e) ns"
  shows "split_notes (join NOTE_SEP ns) = map str_strip ns"
proof (cases "ns = []")
  case True
  then show ?thesis by (simp add: split_notes_Nil)
next
  case False
  have "list_all (list_all (\<lambda>c. \<not> note_delim c)) ns"
    using assms by (simp add: list_all_iff)
  then have "re_split note_delim (join NOTE_SEP ns) = ns"
    using False by (simp add: NOTE_SEP_def re_split_join note_delim_def)
  moreover have "filter (\<lambda>n. str_strip n \<noteq> []) ns = ns"
    using assms by (auto simp: list_all_iff intro: filter_True)
  ultimately show ?thesis by (simp add: split_notes_def)
qed

lemma length_slice_from_cap: "1 \<le> n \<Longrightarrow> length (slice_from (- n) xs) \<le> nat n"
  by (auto simp: slice_from_def)

lemma update_notes_bounds:
  assumes allowed: "NOTES \<in> set (allowed_fields m)"
    and cap: "1 \<le> max_notes_count m"
    and upd: "update_field m uid NOTES v sid now = (r, m1)"
    and short: "\<forall>e\<in>set (stored_notes m uid sid). length e \<le> 20"
  shows "length (stored_notes m1 uid sid) \<le> nat (max_notes_count m) \<and>
         (\<forall>e\<in>set (stored_notes m1 uid sid). e \<noteq> [] \<and> length e \<le> 20)"
proof -
  let ?new = "new_notes (str_strip v)"
  let ?n1 = "slice_from (- max_notes_count m) (append_new (stored_notes m uid sid) ?new)"
  have s1: "map_of (get_user_profile m1 uid sid) NOTES = Some (join NOTE_SEP ?n1)"
    using notes_after_update(1) [OF allowed upd] .
  have old: "note_ok e" if "e \<in> set (stored_notes m uid sid)" for e
    using that split_notes_ok by (auto simp: stored_notes_def split: option.splits)
  have entry: "str_strip e \<noteq> [] \<and> list_all (\<lambda>c. \<not> note_delim c) e \<and> length e \<le> 20"
    if "e \<in> set ?n1" for e
  proof -
    from that have "e \<in> set (stored_notes m uid sid) \<or> e \<in> set ?new"
      using set_slice_from [of "- max_notes_count m"] set_append_new by fastforce
    then show ?thesis
    proof
      assume "e \<in> set (stored_notes m uid sid)"
      then show ?thesis using old [of e] short by (auto simp: note_ok_def)
    next
      assume "e \<in> set ?new"
      then show ?thesis by (rule new_notes_entry)
    qed
  qed
  then have "split_notes (join NOTE_SEP ?n1) = map str_strip ?n1"
    by (intro split_notes_join_strip) (simp add: list_all_iff)
  then have n1: "stored_notes m1 uid sid = map str_strip ?n1"
    by (simp add: stored_notes_def s1)
  have "length (stored_notes m1 uid sid) \<le> nat (max_notes_count m)"
    using cap by (simp add: n1 length_slice_from_cap)
  moreover have "e \<noteq> [] \<and> length e \<le> 20" if "e \<in> set (stored_notes m1 uid sid)" for e
  proof -
    from that obtain e0 where e0: "e0 \<in> set ?n1" "e = str_strip e0"
      by (auto simp: n1)
    have "length e \<le> length e0" unfolding e0(2) by (rule str_strip_length_le)
    then show ?thesis using entry [OF e0(1)] e0(2) by simp
  qed
  ultimately show ?thesis by blast
qed

end
